theory Spec2Isabelle
  imports
    Main
    "HOL-Library.Sublist"
    "HOL-Library.List_Lexorder"
    "HOL-Library.Multiset"
    "HOL-Library.Word"
begin

section \<open>Python strings\<close>

text \<open>
  A Python \<^verbatim>\<open>str\<close> is a sequence of Unicode code points, so it is modelled as a list of
  natural numbers; \<open>py\<close> turns an ASCII literal into that form. Comparison of two
  \<^verbatim>\<open>str\<close> values is lexicographic on code points, which is the order of
  \<open>HOL-Library.List_Lexorder\<close> on \<open>nat list\<close>.
\<close>

type_synonym pystr = "nat list"

definition py :: "string \<Rightarrow> pystr" where
  "py s = map of_char s"

text \<open>\<^verbatim>\<open>s.startswith(p)\<close>\<close>

definition startswith :: "pystr \<Rightarrow> pystr \<Rightarrow> bool" where
  "startswith s p = prefix p s"

text \<open>
  \<^verbatim>\<open>str.isspace\<close> for one code point: the characters that \<^verbatim>\<open>str.strip()\<close> removes.
\<close>

definition is_space :: "nat \<Rightarrow> bool" where
  "is_space c \<longleftrightarrow>
     (9 \<le> c \<and> c \<le> 13) \<or> (28 \<le> c \<and> c \<le> 32) \<or> c = 133 \<or> c = 160 \<or> c = 5760 \<or>
     (8192 \<le> c \<and> c \<le> 8202) \<or> c = 8232 \<or> c = 8233 \<or> c = 8239 \<or> c = 8287 \<or> c = 12288"

text \<open>The line boundaries of \<^verbatim>\<open>str.splitlines()\<close>.\<close>

definition is_linebreak :: "nat \<Rightarrow> bool" where
  "is_linebreak c \<longleftrightarrow>
     (10 \<le> c \<and> c \<le> 13) \<or> (28 \<le> c \<and> c \<le> 30) \<or> c = 133 \<or> c = 8232 \<or> c = 8233"

text \<open>\<^verbatim>\<open>s.strip(chars)\<close> with the character set given as a predicate.\<close>

definition strip_chars :: "(nat \<Rightarrow> bool) \<Rightarrow> pystr \<Rightarrow> pystr" where
  "strip_chars P s = rev (dropWhile P (rev (dropWhile P s)))"

text \<open>\<^verbatim>\<open>s.strip()\<close>\<close>

definition strip :: "pystr \<Rightarrow> pystr" where
  "strip s = strip_chars is_space s"

text \<open>\<^verbatim>\<open>s.strip("'\"")\<close>\<close>

definition strip_quotes :: "pystr \<Rightarrow> pystr" where
  "strip_quotes s = strip_chars (\<lambda>c. c = 39 \<or> c = 34) s"

text \<open>
  \<^verbatim>\<open>s.splitlines()\<close>: \<open>cur\<close> is the current line, reversed, and the second argument is
  the text still to be read. A carriage return followed by a line feed is one boundary;
  a final boundary does not open an empty last line.
\<close>

fun splitlines_from :: "pystr \<Rightarrow> pystr \<Rightarrow> pystr list" where
  "splitlines_from cur [] = (if cur = [] then [] else [rev cur])"
| "splitlines_from cur [c] =
     (if is_linebreak c then [rev cur] else [rev (c # cur)])"
| "splitlines_from cur (c # d # cs) =
     (if c = 13 \<and> d = 10 then rev cur # splitlines_from [] cs
      else if is_linebreak c then rev cur # splitlines_from [] (d # cs)
      else splitlines_from (c # cur) (d # cs))"

definition splitlines :: "pystr \<Rightarrow> pystr list" where
  "splitlines s = splitlines_from [] s"

text \<open>
  \<^verbatim>\<open>s.split(":", maxsplit=1)\<close>: one element when \<open>s\<close> has no colon, otherwise the text
  before the first colon and the text after it.
\<close>

definition split_colon1 :: "pystr \<Rightarrow> pystr list" where
  "split_colon1 s =
     (let a = takeWhile (\<lambda>c. c \<noteq> 58) s; r = dropWhile (\<lambda>c. c \<noteq> 58) s
      in case r of [] \<Rightarrow> [a] | _ # b \<Rightarrow> [a, b])"

section \<open>Exceptions\<close>

text \<open>
  The exceptions the script raises or lets through. In Python \<^verbatim>\<open>IndexError\<close> is a subclass
  of \<^verbatim>\<open>LookupError\<close>; \<open>is_LookupError\<close> is the \<^verbatim>\<open>isinstance\<close> test.
\<close>

datatype oserror = FileNotFoundError | IsADirectoryError

datatype error =
    LookupError pystr
  | IndexError
  | ValueError pystr
  | OSError oserror
  | CalledProcessError

fun is_LookupError :: "error \<Rightarrow> bool" where
  "is_LookupError (LookupError _) = True"
| "is_LookupError IndexError = True"
| "is_LookupError _ = False"

text \<open>\<^verbatim>\<open>xs[1]\<close> on the result of a split.\<close>

fun index1 :: "'a list \<Rightarrow> error + 'a" where
  "index1 (_ # x # _) = Inr x"
| "index1 _ = Inl IndexError"

section \<open>Artifact URLs\<close>

record ArtifactUrl =
  url :: pystr
  repo_base_url :: pystr
  relpath :: pystr

definition REPO_BASES :: "pystr list" where
  "REPO_BASES =
     [py ''https://repo.maven.apache.org/maven2/'',
      py ''https://oss.sonatype.org/content/repositories/snapshots/'',
      py ''https://maven.ej-technologies.com/repository/'']"

text \<open>
  \<^verbatim>\<open>ArtifactUrl.parse_url\<close>: the \<^verbatim>\<open>for ... else\<close> loop over the bases, the \<^verbatim>\<open>else\<close>
  branch being the empty list.
\<close>

fun parse_url_loop :: "pystr list \<Rightarrow> pystr \<Rightarrow> error + ArtifactUrl" where
  "parse_url_loop [] u = Inl (ValueError (u @ py '' is not from a known Maven repository''))"
| "parse_url_loop (base # bases) u =
     (if startswith u base
      then Inr \<lparr>url = u, repo_base_url = base, relpath = drop (length base) u\<rparr>
      else parse_url_loop bases u)"

definition parse_url :: "pystr \<Rightarrow> error + ArtifactUrl" where
  "parse_url u = parse_url_loop REPO_BASES u"

section \<open>The build log\<close>

text \<open>
  \<^verbatim>\<open>DOWNLOADED_RE = re.compile("Downloaded from .*: (https?://[^ ]+)")\<close> and its
  \<^verbatim>\<open>search\<close>, as the backtracking matcher runs it; every function returns group 1 of
  the match it finds. \<open>match_token\<close> is \<^verbatim>\<open>://[^ ]+\<close> at the start of its argument (the
  greedy class takes every character up to the next space, and nothing follows it in the
  pattern); \<open>match_url\<close> is the group \<^verbatim>\<open>https?://[^ ]+\<close>, trying the optional
  \<^verbatim>\<open>s\<close> first; \<open>match_tail\<close> is everything after \<^verbatim>\<open>.*\<close>; \<open>match_star k\<close> lets the
  greedy \<^verbatim>\<open>.*\<close> take \<open>k\<close> characters and gives one back at a time; \<open>match_at\<close> is the
  whole pattern at the start of its argument, where \<^verbatim>\<open>.\<close> matches everything except a
  line feed; \<open>DOWNLOADED_RE_search\<close> tries every start position from the left.
\<close>

definition match_token :: "pystr \<Rightarrow> pystr option" where
  "match_token s =
     (if startswith s (py ''://'')
      then (let tok = takeWhile (\<lambda>c. c \<noteq> 32) (drop (length (py ''://'')) s)
            in if tok = [] then None else Some (py ''://'' @ tok))
      else None)"

definition match_url :: "pystr \<Rightarrow> pystr option" where
  "match_url s =
     (if startswith s (py ''http'')
      then (let r = drop (length (py ''http'')) s
            in case (if startswith r (py ''s'')
                     then match_token (drop (length (py ''s'')) r) else None) of
                 Some t \<Rightarrow> Some (py ''https'' @ t)
               | None \<Rightarrow> (case match_token r of
                            Some t \<Rightarrow> Some (py ''http'' @ t)
                          | None \<Rightarrow> None))
      else None)"

definition match_tail :: "pystr \<Rightarrow> pystr option" where
  "match_tail s = (if startswith s (py '': '') then match_url (drop (length (py '': '')) s) else None)"

fun match_star :: "nat \<Rightarrow> pystr \<Rightarrow> pystr option" where
  "match_star 0 s = match_tail s"
| "match_star (Suc k) s =
     (case match_tail (drop (Suc k) s) of Some u \<Rightarrow> Some u | None \<Rightarrow> match_star k s)"

definition match_at :: "pystr \<Rightarrow> pystr option" where
  "match_at s =
     (if startswith s (py ''Downloaded from '')
      then (let r = drop (length (py ''Downloaded from '')) s
            in match_star (length (takeWhile (\<lambda>c. c \<noteq> 10) r)) r)
      else None)"

fun DOWNLOADED_RE_search :: "pystr \<Rightarrow> pystr option" where
  "DOWNLOADED_RE_search [] = match_at []"
| "DOWNLOADED_RE_search (c # cs) =
     (case match_at (c # cs) of Some u \<Rightarrow> Some u | None \<Rightarrow> DOWNLOADED_RE_search cs)"

text \<open>
  \<^verbatim>\<open>extract_downloaded_artifacts\<close> is a generator: it yields one \<^verbatim>\<open>ArtifactUrl\<close> after the
  other and ends either by exhaustion or by the \<^verbatim>\<open>ValueError\<close> of \<^verbatim>\<open>parse_url\<close>. The model
  returns the references yielded, in order, and the exception that ended the iteration,
  if any.
\<close>

fun extract_lines :: "pystr list \<Rightarrow> ArtifactUrl list \<times> error option" where
  "extract_lines [] = ([], None)"
| "extract_lines (line # rest) =
     (case DOWNLOADED_RE_search line of
        None \<Rightarrow> extract_lines rest
      | Some u \<Rightarrow>
          (case parse_url u of
             Inl e \<Rightarrow> ([], Some e)
           | Inr a \<Rightarrow> (a # fst (extract_lines rest), snd (extract_lines rest))))"

definition extract_downloaded_artifacts :: "pystr \<Rightarrow> ArtifactUrl list \<times> error option" where
  "extract_downloaded_artifacts build_log = extract_lines (splitlines build_log)"

text \<open>
  The matching rule in the words of the specification, for comparison with the matcher. A
  URL token is \<^verbatim>\<open>http://\<close> or \<^verbatim>\<open>https://\<close> followed by one or more characters that are
  not spaces. A line is a download line when it contains \<^verbatim>\<open>Downloaded from \<close>, a repository
  identifier, a colon and a space, and then a URL token. The token \<open>u\<close> extracted from a
  download line is a URL token in that position that ends at a space or at the end of the
  line and after which no further colon, space and URL token follow, so that it is the last
  one on the line and the repository identifier is all the text before its colon.
\<close>

definition url_token :: "pystr \<Rightarrow> bool" where
  "url_token u \<longleftrightarrow>
     (\<exists>scheme tok. u = scheme @ tok \<and> (scheme = py ''http://'' \<or> scheme = py ''https://'') \<and>
        tok \<noteq> [] \<and> 32 \<notin> set tok)"

definition contains_download :: "pystr \<Rightarrow> bool" where
  "contains_download l \<longleftrightarrow>
     (\<exists>pre ident u post. l = pre @ py ''Downloaded from '' @ ident @ py '': '' @ u @ post \<and>
        url_token u)"

definition spec_downloaded_line :: "pystr \<Rightarrow> pystr \<Rightarrow> bool" where
  "spec_downloaded_line l u \<longleftrightarrow>
     (\<exists>pre ident post. l = pre @ py ''Downloaded from '' @ ident @ py '': '' @ u @ post \<and>
        url_token u \<and> (post = [] \<or> hd post = 32) \<and>
        \<not> (\<exists>b u' post'. u @ post = b @ py '': '' @ u' @ post' \<and> url_token u'))"

section \<open>The packaging manifest\<close>

text \<open>
  The field \<^verbatim>\<open>url\<close> of \<^verbatim>\<open>FlatpakGitSource\<close> is \<open>git_url\<close> here, since a record field
  name can be declared once only and \<^verbatim>\<open>ArtifactUrl\<close> has a field of that name as well.
\<close>

record FlatpakGitSource =
  git_url :: pystr
  commit :: pystr

record FlatpakSdk =
  name :: pystr
  version :: pystr

text \<open>\<^verbatim>\<open>line.split(":", maxsplit=1)[1]\<close>, which raises \<^verbatim>\<open>IndexError\<close> on a line without a colon.\<close>

definition after_colon :: "pystr \<Rightarrow> error + pystr" where
  "after_colon line = index1 (split_colon1 line)"

text \<open>
  The test \<^verbatim>\<open>if a and b\<close> on two variables that are \<^verbatim>\<open>None\<close> or a string (\<^verbatim>\<open>None\<close> and the
  empty string are false), with the two strings it lets through.
\<close>

fun both_found :: "pystr option \<Rightarrow> pystr option \<Rightarrow> (pystr \<times> pystr) option" where
  "both_found (Some a) (Some b) = (if a \<noteq> [] \<and> b \<noteq> [] then Some (a, b) else None)"
| "both_found _ _ = None"

text \<open>
  \<^verbatim>\<open>FlatpakSdk.parse_from_manifest\<close>. \<open>sdk_update\<close> is the \<^verbatim>\<open>if\<close>/\<^verbatim>\<open>elif\<close> at the head of the
  loop body, on the loop variables \<open>nm\<close> (\<^verbatim>\<open>name\<close>) and \<open>ver\<close> (\<^verbatim>\<open>version\<close>); the loop
  function is the \<^verbatim>\<open>for\<close> loop with its early return, and the \<^verbatim>\<open>raise\<close> after it.
\<close>

definition sdk_update ::
  "pystr option \<Rightarrow> pystr option \<Rightarrow> pystr \<Rightarrow> error + (pystr option \<times> pystr option)" where
  "sdk_update nm ver line =
     (if startswith line (py ''sdk:'')
      then (case after_colon line of
              Inl e \<Rightarrow> Inl e
            | Inr v \<Rightarrow> Inr (Some (strip v), ver))
      else if startswith line (py ''runtime-version'')
      then (case after_colon line of
              Inl e \<Rightarrow> Inl e
            | Inr v \<Rightarrow> Inr (nm, Some (strip_quotes (strip v))))
      else Inr (nm, ver))"

fun parse_from_manifest_loop ::
  "pystr option \<Rightarrow> pystr option \<Rightarrow> pystr list \<Rightarrow> error + FlatpakSdk" where
  "parse_from_manifest_loop nm ver [] =
     Inl (LookupError (py ''Failed to find sdk or runtime-version in manifest''))"
| "parse_from_manifest_loop nm ver (line # rest) =
     (case sdk_update nm ver line of
        Inl e \<Rightarrow> Inl e
      | Inr (nm', ver') \<Rightarrow>
          (case both_found nm' ver' of
             Some (n, v) \<Rightarrow> Inr \<lparr>name = n, version = v\<rparr>
           | None \<Rightarrow> parse_from_manifest_loop nm' ver' rest))"

definition parse_from_manifest :: "pystr \<Rightarrow> error + FlatpakSdk" where
  "parse_from_manifest manifest = parse_from_manifest_loop None None (splitlines manifest)"

text \<open>
  \<^verbatim>\<open>find_mediathekview_source\<close>, on the text that \<^verbatim>\<open>manifest.read_text\<close> returns. Each of
  its three \<^verbatim>\<open>for\<close> loops iterates over the list \<^verbatim>\<open>lines\<close> from its first element. The
  first two only \<^verbatim>\<open>break\<close> or raise, so each of them is the test whether some line has
  the marker; \<open>source_update\<close> and \<open>find_source_loop\<close> are the third, on the loop
  variables \<open>u\<close> (\<^verbatim>\<open>url\<close>) and \<open>c\<close> (\<^verbatim>\<open>commit\<close>).
\<close>

definition source_update ::
  "pystr option \<Rightarrow> pystr option \<Rightarrow> pystr \<Rightarrow> error + (pystr option \<times> pystr option)" where
  "source_update u c line0 =
     (let line = strip line0
      in if startswith line (py ''url:'')
         then (case after_colon line of
                 Inl e \<Rightarrow> Inl e
               | Inr v \<Rightarrow> Inr (Some (strip v), c))
         else if startswith line (py ''commit:'')
         then (case after_colon line of
                 Inl e \<Rightarrow> Inl e
               | Inr v \<Rightarrow> Inr (u, Some (strip v)))
         else Inr (u, c))"

fun find_source_loop ::
  "pystr option \<Rightarrow> pystr option \<Rightarrow> pystr list \<Rightarrow> error + FlatpakGitSource" where
  "find_source_loop u c [] =
     Inl (LookupError (py ''url or commit not found in main mediathekview source''))"
| "find_source_loop u c (line # rest) =
     (case source_update u c line of
        Inl e \<Rightarrow> Inl e
      | Inr (u', c') \<Rightarrow>
          (case both_found u' c' of
             Some (a, b) \<Rightarrow> Inr \<lparr>git_url = a, commit = b\<rparr>
           | None \<Rightarrow> find_source_loop u' c' rest))"

definition find_mediathekview_source :: "pystr \<Rightarrow> error + FlatpakGitSource" where
  "find_mediathekview_source text =
     (let lines = splitlines text
      in if \<not> list_ex (\<lambda>line. strip line = py ''- name: mediathekview'') lines
         then Inl (LookupError (py ''mediathekview module not found''))
         else if \<not> list_ex (\<lambda>line. strip line = py ''- type: git'') lines
         then Inl (LookupError (py ''git source not found''))
         else find_source_loop None None lines)"

text \<open>
  The scan in the words of the specification, for comparison: forward only, the search for
  the git source starting after the module marker and the search for the first \<^verbatim>\<open>url:\<close>
  and the first \<^verbatim>\<open>commit:\<close> line starting after the git-source marker.
\<close>

definition first_value :: "pystr \<Rightarrow> pystr list \<Rightarrow> pystr option" where
  "first_value key lines =
     (case filter (\<lambda>l. startswith l key) (map strip lines) of
        [] \<Rightarrow> None
      | l # _ \<Rightarrow> Some (strip (drop (length key) l)))"

definition spec_find_source_forward :: "pystr \<Rightarrow> error + FlatpakGitSource" where
  "spec_find_source_forward text =
     (case dropWhile (\<lambda>l. strip l \<noteq> py ''- name: mediathekview'') (splitlines text) of
        [] \<Rightarrow> Inl (LookupError (py ''mediathekview module not found''))
      | _ # after_module \<Rightarrow>
          (case dropWhile (\<lambda>l. strip l \<noteq> py ''- type: git'') after_module of
             [] \<Rightarrow> Inl (LookupError (py ''git source not found''))
           | _ # after_git \<Rightarrow>
               (case (first_value (py ''url:'') after_git, first_value (py ''commit:'') after_git) of
                  (Some u, Some c) \<Rightarrow> Inr \<lparr>git_url = u, commit = c\<rparr>
                | _ \<Rightarrow> Inl (LookupError (py ''url or commit not found in main mediathekview source'')))))"

text \<open>
  Notions for stating what \<^verbatim>\<open>parse_from_manifest\<close> returns: the lines that set the name,
  the lines that set the version (the \<^verbatim>\<open>elif\<close> branch), the text after the first colon of
  a line, the two values derived from it, the version lines on which the index raises, and
  the value a variable holds after the loop body has run on every line of a list, which is
  that of the last line that sets it.
\<close>

definition is_sdk_line :: "pystr \<Rightarrow> bool" where
  "is_sdk_line l = startswith l (py ''sdk:'')"

definition is_version_line :: "pystr \<Rightarrow> bool" where
  "is_version_line l = (\<not> startswith l (py ''sdk:'') \<and> startswith l (py ''runtime-version''))"

definition colon_value :: "pystr \<Rightarrow> pystr" where
  "colon_value l = drop 1 (dropWhile (\<lambda>c. c \<noteq> 58) l)"

definition sdk_value :: "pystr \<Rightarrow> pystr" where
  "sdk_value l = strip (colon_value l)"

definition version_value :: "pystr \<Rightarrow> pystr" where
  "version_value l = strip_quotes (strip (colon_value l))"

definition bad_version_line :: "pystr \<Rightarrow> bool" where
  "bad_version_line l = (is_version_line l \<and> 58 \<notin> set l)"

definition last_value ::
  "(pystr \<Rightarrow> bool) \<Rightarrow> (pystr \<Rightarrow> pystr) \<Rightarrow> pystr option \<Rightarrow> pystr list \<Rightarrow> pystr option" where
  "last_value P f init ls = (case rev (filter P ls) of [] \<Rightarrow> init | l # _ \<Rightarrow> Some (f l))"

text \<open>
  What the test \<^verbatim>\<open>if name and version\<close> finds after a list of lines has been read, none of
  them a version line without a colon: the two values, when both are set and non-empty.
  \<open>found_from\<close> starts from given values of the two variables, \<open>found_after\<close> from
  \<^verbatim>\<open>None\<close> for both, as the function does.
\<close>

definition found_from ::
  "pystr option \<Rightarrow> pystr option \<Rightarrow> pystr list \<Rightarrow> (pystr \<times> pystr) option" where
  "found_from nm ver ls =
     both_found (last_value is_sdk_line sdk_value nm ls)
       (last_value is_version_line version_value ver ls)"

definition found_after :: "pystr list \<Rightarrow> (pystr \<times> pystr) option" where
  "found_after ls = found_from None None ls"

section \<open>Paths\<close>

text \<open>
  A \<^verbatim>\<open>pathlib\<close> path on a POSIX host, in the form \<^verbatim>\<open>pathlib\<close> keeps it: the root (empty,
  \<^verbatim>\<open>/\<close> or \<^verbatim>\<open>//\<close>) and the list of its other components. \<open>parse_path\<close> is the
  constructor on a string: \<^verbatim>\<open>posixpath.splitroot\<close>, then a split at \<^verbatim>\<open>/\<close> that drops empty
  components and \<^verbatim>\<open>.\<close> components. \<open>joinpath p seg\<close> is \<^verbatim>\<open>p / seg\<close> for a string \<open>seg\<close>: a
  segment that starts with \<^verbatim>\<open>/\<close> replaces the path, any other segment adds its components.
  \<open>path_name\<close>, \<open>parent\<close> and \<open>as_posix\<close> are \<^verbatim>\<open>.name\<close>, \<^verbatim>\<open>.parent\<close> and \<^verbatim>\<open>.as_posix()\<close>
  (which is \<^verbatim>\<open>str\<close> on a POSIX path).
\<close>

record Path =
  root :: pystr
  tail :: "pystr list"

fun split_slash :: "pystr \<Rightarrow> pystr list" where
  "split_slash [] = [[]]"
| "split_slash (c # cs) =
     (if c = 47 then [] # split_slash cs
      else (case split_slash cs of [] \<Rightarrow> [[c]] | x # xs \<Rightarrow> (c # x) # xs))"

fun join_slash :: "pystr list \<Rightarrow> pystr" where
  "join_slash [] = []"
| "join_slash [x] = x"
| "join_slash (x # y # ys) = x @ 47 # join_slash (y # ys)"

definition splitroot :: "pystr \<Rightarrow> pystr \<times> pystr" where
  "splitroot p =
     (if take 1 p \<noteq> [47] then ([], p)
      else if take 1 (drop 1 p) \<noteq> [47] \<or> take 1 (drop 2 p) = [47] then ([47], drop 1 p)
      else (take 2 p, drop 2 p))"

definition parse_path :: "pystr \<Rightarrow> Path" where
  "parse_path p =
     (case splitroot p of
        (rt, rel) \<Rightarrow> \<lparr>root = rt, tail = filter (\<lambda>x. x \<noteq> [] \<and> x \<noteq> [46]) (split_slash rel)\<rparr>)"

definition joinpath :: "Path \<Rightarrow> pystr \<Rightarrow> Path" where
  "joinpath p seg =
     (if startswith seg [47] then parse_path seg
      else \<lparr>root = root p, tail = tail p @ tail (parse_path seg)\<rparr>)"

definition path_name :: "Path \<Rightarrow> pystr" where
  "path_name p = (if tail p = [] then [] else last (tail p))"

definition parent :: "Path \<Rightarrow> Path" where
  "parent p = (if tail p = [] then p else \<lparr>root = root p, tail = butlast (tail p)\<rparr>)"

definition as_posix :: "Path \<Rightarrow> pystr" where
  "as_posix p = (let s = root p @ join_slash (tail p) in if s = [] then [46] else s)"

section \<open>The local repository\<close>

text \<open>
  The file system as the function sees it: a path is a regular file with its bytes, a
  directory with the names \<^verbatim>\<open>os.scandir\<close> lists, in that order, or nothing.
  \<open>read_bytes\<close> is \<^verbatim>\<open>Path.read_bytes\<close>, which raises on a missing file and on a
  directory.
\<close>

type_synonym byte = "8 word"

datatype node = File "byte list" | Dir "pystr list"

type_synonym filesystem = "Path \<Rightarrow> node option"

definition read_bytes :: "filesystem \<Rightarrow> Path \<Rightarrow> error + byte list" where
  "read_bytes fs p =
     (case fs p of
        None \<Rightarrow> Inl (OSError FileNotFoundError)
      | Some (Dir _) \<Rightarrow> Inl (OSError IsADirectoryError)
      | Some (File b) \<Rightarrow> Inr b)"

text \<open>
  \<^verbatim>\<open>fnmatch\<close> of a name against a pattern made of literal characters and \<^verbatim>\<open>*\<close> (code point
  42); the pattern used has no \<^verbatim>\<open>?\<close> and no bracket. \<open>glob fs pattern root_dir\<close> is
  \<^verbatim>\<open>glob.glob(pattern, root_dir=root_dir)\<close> for a pattern without a directory part: the
  matching names of the directory in listing order, and the empty list when the directory
  cannot be listed.
\<close>

fun fnmatch :: "pystr \<Rightarrow> pystr \<Rightarrow> bool" where
  "fnmatch [] [] = True"
| "fnmatch (c # cs) [] = False"
| "fnmatch [] (p # ps) = (p = 42 \<and> fnmatch [] ps)"
| "fnmatch (c # cs) (p # ps) =
     (if p = 42 then fnmatch (c # cs) ps \<or> fnmatch cs (p # ps) else p = c \<and> fnmatch cs ps)"

definition glob :: "filesystem \<Rightarrow> pystr \<Rightarrow> Path \<Rightarrow> pystr list" where
  "glob fs pattern root_dir =
     (case fs root_dir of
        Some (Dir names) \<Rightarrow> filter (\<lambda>n. fnmatch n pattern) names
      | _ \<Rightarrow> [])"

text \<open>
  \<^verbatim>\<open>hashlib.sha512(data).hexdigest()\<close>: SHA-512 itself belongs to \<^verbatim>\<open>hashlib\<close> and is a
  parameter \<open>sha512_digest\<close> of the functions below, from the bytes of the file to the
  bytes of the digest; \<open>hexdigest\<close> writes the digest as two lowercase hexadecimal digits
  per byte.
\<close>

definition hex_digit :: "nat \<Rightarrow> nat" where
  "hex_digit n = (if n < 10 then 48 + n else 87 + n)"

definition hexdigest :: "byte list \<Rightarrow> pystr" where
  "hexdigest d = concat (map (\<lambda>b. [hex_digit (unat b div 16), hex_digit (unat b mod 16)]) d)"

section \<open>Flatpak file sources\<close>

text \<open>
  The field \<^verbatim>\<open>url\<close> of \<^verbatim>\<open>FlatpakFileSource\<close> is \<open>src_url\<close> here. \<open>create_flatpak_source\<close>
  follows the source line by line; the only step that can raise is the read of the file.
\<close>

record FlatpakFileSource =
  src_url :: pystr
  dest :: pystr
  dest_filename :: pystr
  sha512 :: pystr

definition create_flatpak_source ::
  "(byte list \<Rightarrow> byte list) \<Rightarrow> filesystem \<Rightarrow> Path \<Rightarrow> ArtifactUrl \<Rightarrow> error + FlatpakFileSource" where
  "create_flatpak_source sha512_digest fs repo au =
     (let artifact = joinpath repo (relpath au);
          name0 = path_name artifact;
          name1 = (if name0 = py ''maven-metadata.xml''
                   then (case glob fs (py ''maven-metadata-*.xml'') (parent artifact) of
                           [] \<Rightarrow> name0
                         | c # _ \<Rightarrow> c)
                   else name0)
      in case read_bytes fs artifact of
           Inl e \<Rightarrow> Inl e
         | Inr data \<Rightarrow>
             Inr \<lparr>src_url = url au,
                  dest = as_posix (parent (joinpath (joinpath (parse_path (py ''.m2''))
                           (py ''repository'')) (relpath au))),
                  dest_filename = name1,
                  sha512 = hexdigest (sha512_digest data)\<rparr>)"

text \<open>
  The list comprehension of \<^verbatim>\<open>update_dependencies\<close>, which takes one reference after the
  other from the generator and builds its source at once: an exception of
  \<^verbatim>\<open>create_flatpak_source\<close> ends it before the generator is asked for the next reference,
  and the exception that ends the generator ends it after the last reference.
\<close>

fun collect_sources ::
  "(byte list \<Rightarrow> byte list) \<Rightarrow> filesystem \<Rightarrow> Path \<Rightarrow> ArtifactUrl list \<Rightarrow> error option \<Rightarrow>
     error + FlatpakFileSource list" where
  "collect_sources sha512_digest fs repo [] None = Inr []"
| "collect_sources sha512_digest fs repo [] (Some e) = Inl e"
| "collect_sources sha512_digest fs repo (a # rest) fin =
     (case create_flatpak_source sha512_digest fs repo a of
        Inl e \<Rightarrow> Inl e
      | Inr s \<Rightarrow>
          (case collect_sources sha512_digest fs repo rest fin of
             Inl e \<Rightarrow> Inl e
           | Inr ss \<Rightarrow> Inr (s # ss)))"

text \<open>
  What \<^verbatim>\<open>update_dependencies\<close> does before it reads the log is the work of \<^verbatim>\<open>git\<close> and of
  the Maven wrapper in a temporary directory. It is the parameter \<open>build\<close>: for a source,
  either the exception of a failed command or the standard output of the build, the file
  system the build leaves and the path of the local repository in it.
\<close>

record BuildCapture =
  stdout :: pystr
  files :: filesystem
  repo_directory :: Path

definition update_dependencies ::
  "(byte list \<Rightarrow> byte list) \<Rightarrow> (FlatpakGitSource \<Rightarrow> error + BuildCapture) \<Rightarrow> FlatpakGitSource \<Rightarrow>
     error + FlatpakFileSource list" where
  "update_dependencies sha512_digest build source =
     (case build source of
        Inl e \<Rightarrow> Inl e
      | Inr b \<Rightarrow>
          (case extract_downloaded_artifacts (stdout b) of
             (urls, fin) \<Rightarrow>
               (case collect_sources sha512_digest (files b) (repo_directory b) urls fin of
                  Inl e \<Rightarrow> Inl e
                | Inr sources \<Rightarrow> Inr (sort_key src_url sources))))"

text \<open>
  The destination directory in the words of the specification, on strings: the segments
  of a relative path are the pieces between its slashes, without the empty ones and the
  ones that are \<^verbatim>\<open>.\<close>; its parent directory has all of them but the last; and the
  forward-slash join of the prefix \<^verbatim>\<open>.m2/repository\<close> with that parent is the prefix followed
  by a slash and a segment for each of them.
\<close>

definition components :: "pystr \<Rightarrow> pystr list" where
  "components p = filter (\<lambda>x. x \<noteq> [] \<and> x \<noteq> [46]) (split_slash p)"

definition spec_dest :: "pystr \<Rightarrow> pystr" where
  "spec_dest rel =
     py ''.m2/repository'' @ concat (map (\<lambda>c. 47 # c) (butlast (components rel)))"

section \<open>An example build\<close>

text \<open>
  A local repository \<^verbatim>\<open>/cache\<close> with one jar and one metadata file that has a versioned
  sibling, two references into it, and a build log that names both.
\<close>

definition example_repo :: Path where
  "example_repo = \<lparr>root = [47], tail = [py ''cache'']\<rparr>"

definition example_jar :: ArtifactUrl where
  "example_jar =
     \<lparr>url = py ''https://repo.maven.apache.org/maven2/foo/bar/1.0/bar-1.0.jar'',
      repo_base_url = py ''https://repo.maven.apache.org/maven2/'',
      relpath = py ''foo/bar/1.0/bar-1.0.jar''\<rparr>"

definition example_metadata :: ArtifactUrl where
  "example_metadata =
     \<lparr>url = py ''https://repo.maven.apache.org/maven2/foo/maven-metadata.xml'',
      repo_base_url = py ''https://repo.maven.apache.org/maven2/'',
      relpath = py ''foo/maven-metadata.xml''\<rparr>"

definition example_fs :: filesystem where
  "example_fs =
     (\<lambda>p. None)
       (\<lparr>root = [47], tail = [py ''cache'']\<rparr> \<mapsto> Dir [py ''foo''],
        \<lparr>root = [47], tail = [py ''cache'', py ''foo'']\<rparr> \<mapsto>
          Dir [py ''bar'', py ''maven-metadata.xml'', py ''maven-metadata-20240101.120000-3.xml''],
        \<lparr>root = [47], tail = [py ''cache'', py ''foo'', py ''maven-metadata.xml'']\<rparr> \<mapsto>
          File [60, 109],
        \<lparr>root = [47], tail = [py ''cache'', py ''foo'',
            py ''maven-metadata-20240101.120000-3.xml'']\<rparr> \<mapsto> File [60, 63],
        \<lparr>root = [47], tail = [py ''cache'', py ''foo'', py ''bar'', py ''1.0'',
            py ''bar-1.0.jar'']\<rparr> \<mapsto> File [80, 75, 3, 4])"

definition example_log :: pystr where
  "example_log =
     py ''[INFO] Downloaded from central: https://repo.maven.apache.org/maven2/foo/maven-metadata.xml (1 kB)'' @
     [10] @ py ''[INFO] Compiling'' @ [10] @
     py ''Downloaded from central: https://repo.maven.apache.org/maven2/foo/bar/1.0/bar-1.0.jar'' @ [10]"

definition example_build :: "FlatpakGitSource \<Rightarrow> error + BuildCapture" where
  "example_build source =
     Inr \<lparr>stdout = example_log, files = example_fs, repo_directory = example_repo\<rparr>"


section \<open>Classification of URLs\<close>

lemma parse_url_loop_found:
  assumes "\<exists>b \<in> set bases. startswith u b"
  shows "\<exists>pre b post. bases = pre @ b # post \<and> (\<forall>b' \<in> set pre. \<not> startswith u b') \<and>
           startswith u b \<and>
           parse_url_loop bases u =
             Inr \<lparr>url = u, repo_base_url = b, relpath = drop (length b) u\<rparr>"
  using assms
proof (induction bases)
  case Nil
  then show ?case by simp
next
  case (Cons a bases)
  show ?case
  proof (cases "startswith u a")
    case True
    then have "a # bases = [] @ a # bases \<and> (\<forall>b' \<in> set []. \<not> startswith u b') \<and>
        startswith u a \<and>
        parse_url_loop (a # bases) u =
          Inr \<lparr>url = u, repo_base_url = a, relpath = drop (length a) u\<rparr>"
      by simp
    then show ?thesis by blast
  next
    case False
    with Cons.prems have "\<exists>b \<in> set bases. startswith u b" by auto
    from Cons.IH [OF this] obtain pre b post where
      h: "bases = pre @ b # post" "\<forall>b' \<in> set pre. \<not> startswith u b'" "startswith u b"
        "parse_url_loop bases u =
           Inr \<lparr>url = u, repo_base_url = b, relpath = drop (length b) u\<rparr>"
      by blast
    from h False have "a # bases = (a # pre) @ b # post \<and>
        (\<forall>b' \<in> set (a # pre). \<not> startswith u b') \<and> startswith u b \<and>
        parse_url_loop (a # bases) u =
          Inr \<lparr>url = u, repo_base_url = b, relpath = drop (length b) u\<rparr>"
      by simp
    then show ?thesis by blast
  qed
qed

lemma parse_url_loop_none:
  "\<forall>b \<in> set bases. \<not> startswith u b \<Longrightarrow>
     parse_url_loop bases u = Inl (ValueError (u @ py '' is not from a known Maven repository''))"
  by (induction bases) simp_all

lemma startswith_append_drop: "startswith u b \<Longrightarrow> b @ drop (length b) u = u"
  by (auto simp: startswith_def prefix_def)

text \<open>
  C1. A URL that starts with one of the known bases is classified: the result carries the
  URL itself, its base is the first base of the list, in list order, that the URL starts
  with, its relative path is the URL without that base, base and relative path
  concatenate to the URL again, and the base is a member of the list.
\<close>

theorem parse_url_known_base:
  assumes "\<exists>b \<in> set REPO_BASES. startswith u b"
  shows "\<exists>r pre post. parse_url u = Inr r \<and> url r = u \<and>
           REPO_BASES = pre @ repo_base_url r # post \<and>
           (\<forall>b' \<in> set pre. \<not> startswith u b') \<and> startswith u (repo_base_url r) \<and>
           relpath r = drop (length (repo_base_url r)) u \<and>
           repo_base_url r @ relpath r = u \<and>
           repo_base_url r \<in> set REPO_BASES"
proof -
  from parse_url_loop_found [OF assms] obtain pre b post where
    h: "REPO_BASES = pre @ b # post" "\<forall>b' \<in> set pre. \<not> startswith u b'" "startswith u b"
      "parse_url_loop REPO_BASES u =
         Inr \<lparr>url = u, repo_base_url = b, relpath = drop (length b) u\<rparr>"
    by blast
  let ?r = "\<lparr>url = u, repo_base_url = b, relpath = drop (length b) u\<rparr>"
  have "b \<in> set (pre @ b # post)" by simp
  then have "b \<in> set REPO_BASES" by (simp only: h(1))
  with h have "parse_url u = Inr ?r \<and> url ?r = u \<and>
      REPO_BASES = pre @ repo_base_url ?r # post \<and>
      (\<forall>b' \<in> set pre. \<not> startswith u b') \<and> startswith u (repo_base_url ?r) \<and>
      relpath ?r = drop (length (repo_base_url ?r)) u \<and>
      repo_base_url ?r @ relpath ?r = u \<and>
      repo_base_url ?r \<in> set REPO_BASES"
    by (simp add: parse_url_def startswith_append_drop)
  then show ?thesis by blast
qed

theorem parse_url_known_base_witness:
  "(\<exists>b \<in> set REPO_BASES.
      startswith (py ''https://oss.sonatype.org/content/repositories/snapshots/a/b.jar'') b) \<and>
   (\<exists>r pre post.
      parse_url (py ''https://oss.sonatype.org/content/repositories/snapshots/a/b.jar'') = Inr r \<and>
      url r = py ''https://oss.sonatype.org/content/repositories/snapshots/a/b.jar'' \<and>
      REPO_BASES = pre @ repo_base_url r # post \<and>
      (\<forall>b' \<in> set pre.
         \<not> startswith (py ''https://oss.sonatype.org/content/repositories/snapshots/a/b.jar'') b') \<and>
      startswith (py ''https://oss.sonatype.org/content/repositories/snapshots/a/b.jar'')
        (repo_base_url r) \<and>
      relpath r = drop (length (repo_base_url r))
        (py ''https://oss.sonatype.org/content/repositories/snapshots/a/b.jar'') \<and>
      repo_base_url r @ relpath r =
        py ''https://oss.sonatype.org/content/repositories/snapshots/a/b.jar'' \<and>
      repo_base_url r \<in> set REPO_BASES)"
proof -
  have h: "\<exists>b \<in> set REPO_BASES.
      startswith (py ''https://oss.sonatype.org/content/repositories/snapshots/a/b.jar'') b"
    by (simp add: REPO_BASES_def startswith_def py_def)
  from h parse_url_known_base [OF h] show ?thesis by (rule conjI)
qed

section \<open>The download pattern\<close>

lemma startswith_py_append [simp]: "startswith (p @ s) p"
  by (simp add: startswith_def)

lemma startswithE:
  assumes "startswith s p"
  obtains r where "s = p @ r"
  using assms by (auto simp: startswith_def prefix_def)

lemma match_token_Some:
  assumes "match_token s = Some t"
  shows "\<exists>tok post. s = t @ post \<and> t = py ''://'' @ tok \<and> tok \<noteq> [] \<and> 32 \<notin> set tok \<and>
           (post = [] \<or> hd post = 32)"
proof -
  from assms have sw: "startswith s (py ''://'')"
    by (auto simp: match_token_def split: if_splits)
  then obtain r where s: "s = py ''://'' @ r" by (rule startswithE)
  let ?tok = "takeWhile (\<lambda>c. c \<noteq> 32) r"
  let ?post = "dropWhile (\<lambda>c. c \<noteq> 32) r"
  from assms have ne: "?tok \<noteq> []" and t: "t = py ''://'' @ ?tok"
    unfolding s by (auto simp: match_token_def Let_def split: if_splits)
  have "s = t @ ?post" by (simp add: s t)
  moreover have "?post = [] \<or> hd ?post = 32"
    using hd_dropWhile [of "\<lambda>c. c \<noteq> 32" r] by auto
  moreover have "32 \<notin> set ?tok" using set_takeWhileD by fastforce
  ultimately show ?thesis using ne t by blast
qed

lemma match_token_complete:
  assumes "tok \<noteq> []" "32 \<notin> set tok"
  shows "match_token (py ''://'' @ tok @ post) \<noteq> None"
proof -
  from assms obtain c cs where "tok = c # cs" "c \<noteq> 32" by (cases tok) auto
  then show ?thesis by (simp add: match_token_def)
qed

lemma match_url_Some:
  assumes "match_url s = Some u"
  shows "\<exists>post. s = u @ post \<and> url_token u \<and> (post = [] \<or> hd post = 32)"
proof -
  from assms have sw: "startswith s (py ''http'')"
    by (auto simp: match_url_def split: if_splits)
  then obtain r where s: "s = py ''http'' @ r" by (rule startswithE)
  from assms consider
      t where "startswith r (py ''s'')" "match_token (drop (length (py ''s'')) r) = Some t"
        "u = py ''https'' @ t"
    | t where "match_token r = Some t" "u = py ''http'' @ t"
    unfolding s by (auto simp: match_url_def Let_def split: if_splits option.splits)
  then show ?thesis
  proof cases
    case 1
    from 1(1) obtain r' where r: "r = py ''s'' @ r'" by (rule startswithE)
    from 1(2) have "match_token r' = Some t" unfolding r by simp
    from match_token_Some [OF this] obtain tok post where
      h: "r' = t @ post" "t = py ''://'' @ tok" "tok \<noteq> []" "32 \<notin> set tok"
        "post = [] \<or> hd post = 32" by blast
    have "s = u @ post" by (simp add: s r h(1) 1(3) py_def)
    moreover have "u = py ''https://'' @ tok" by (simp add: 1(3) h(2) py_def)
    ultimately show ?thesis using h(3,4,5) unfolding url_token_def by blast
  next
    case 2
    from match_token_Some [OF 2(1)] obtain tok post where
      h: "r = t @ post" "t = py ''://'' @ tok" "tok \<noteq> []" "32 \<notin> set tok"
        "post = [] \<or> hd post = 32" by blast
    have "s = u @ post" by (simp add: s h(1) 2(2))
    moreover have "u = py ''http://'' @ tok" by (simp add: 2(2) h(2) py_def)
    ultimately show ?thesis using h(3,4,5) unfolding url_token_def by blast
  qed
qed

lemma match_url_complete:
  assumes "url_token u"
  shows "match_url (u @ post) \<noteq> None"
proof -
  from assms obtain scheme tok where
    h: "u = scheme @ tok" "scheme = py ''http://'' \<or> scheme = py ''https://''" "tok \<noteq> []"
      "32 \<notin> set tok"
    unfolding url_token_def by blast
  from h(2) show ?thesis
  proof
    assume "scheme = py ''http://''"
    then have u: "u @ post = py ''http'' @ py ''://'' @ tok @ post" by (simp add: h(1) py_def)
    have ns: "\<not> startswith (py ''://'' @ tok @ post) (py ''s'')"
      by (simp add: startswith_def py_def)
    from match_token_complete [OF h(3,4), of post] show ?thesis
      unfolding u match_url_def by (auto simp: ns)
  next
    assume "scheme = py ''https://''"
    then have u: "u @ post = py ''http'' @ py ''s'' @ py ''://'' @ tok @ post"
      by (simp add: h(1) py_def)
    from match_token_complete [OF h(3,4), of post] show ?thesis
      unfolding u match_url_def by auto
  qed
qed

lemma match_tail_Some:
  assumes "match_tail s = Some u"
  shows "\<exists>post. s = py '': '' @ u @ post \<and> url_token u \<and> (post = [] \<or> hd post = 32)"
proof -
  from assms have sw: "startswith s (py '': '')"
    by (auto simp: match_tail_def split: if_splits)
  then obtain r where s: "s = py '': '' @ r" by (rule startswithE)
  from assms have "match_url r = Some u" unfolding s by (simp add: match_tail_def)
  from match_url_Some [OF this] obtain post where
    h: "r = u @ post" "url_token u" "post = [] \<or> hd post = 32" by blast
  have "s = py '': '' @ u @ post" by (simp add: s h(1))
  with h(2,3) show ?thesis by blast
qed

lemma match_tail_complete:
  "url_token u \<Longrightarrow> match_tail (py '': '' @ u @ post) \<noteq> None"
  by (simp add: match_tail_def match_url_complete)

lemma match_star_complete:
  "j \<le> k \<Longrightarrow> match_tail (drop j s) \<noteq> None \<Longrightarrow> match_star k s \<noteq> None"
proof (induction k)
  case 0
  then show ?case by simp
next
  case (Suc k)
  show ?case
  proof (cases "match_tail (drop (Suc k) s)")
    case (Some v)
    then show ?thesis by simp
  next
    case None
    with Suc.prems(2) have "j \<noteq> Suc k" by auto
    with Suc.prems(1) have "j \<le> k" by simp
    from Suc.IH [OF this Suc.prems(2)] None show ?thesis by simp
  qed
qed

lemma length_takeWhile_append_ge:
  "\<forall>x \<in> set xs. P x \<Longrightarrow> length xs \<le> length (takeWhile P (xs @ ys))"
  by (simp add: takeWhile_append2)

lemma match_at_complete:
  assumes "10 \<notin> set ident" "url_token u"
  shows "match_at (py ''Downloaded from '' @ ident @ py '': '' @ u @ post) \<noteq> None"
proof -
  let ?r = "ident @ py '': '' @ u @ post"
  have "length ident \<le> length (takeWhile (\<lambda>c. c \<noteq> 10) ?r)"
    using assms(1) by (intro length_takeWhile_append_ge) auto
  moreover have "match_tail (drop (length ident) ?r) \<noteq> None"
    using match_tail_complete [OF assms(2)] by simp
  ultimately have "match_star (length (takeWhile (\<lambda>c. c \<noteq> 10) ?r)) ?r \<noteq> None"
    by (rule match_star_complete)
  then show ?thesis by (simp add: match_at_def Let_def)
qed

lemma search_complete:
  "match_at (drop n l) \<noteq> None \<Longrightarrow> DOWNLOADED_RE_search l \<noteq> None"
proof (induction l arbitrary: n)
  case Nil
  then show ?case by simp
next
  case (Cons c cs)
  show ?case
  proof (cases "match_at (c # cs)")
    case (Some v)
    then show ?thesis by simp
  next
    case None
    with Cons.prems obtain m where n: "n = Suc m" by (cases n) auto
    with Cons.prems have "match_at (drop m cs) \<noteq> None" by simp
    from Cons.IH [OF this] None show ?thesis by simp
  qed
qed

lemma splitlines_from_chars:
  "x \<in> set (splitlines_from cur s) \<Longrightarrow> c \<in> set x \<Longrightarrow> c \<in> set cur \<or> \<not> is_linebreak c"
proof (induction cur s arbitrary: x rule: splitlines_from.induct)
  case (1 cur)
  then show ?case by (auto split: if_splits)
next
  case (2 cur c')
  then show ?case by (auto split: if_splits)
next
  case (3 cur c' d cs)
  show ?case
  proof (cases "c' = 13 \<and> d = 10")
    case True
    with "3.prems" have "x = rev cur \<or> x \<in> set (splitlines_from [] cs)" by simp
    then show ?thesis
    proof
      assume "x = rev cur"
      with "3.prems" show ?thesis by simp
    next
      assume "x \<in> set (splitlines_from [] cs)"
      from "3.IH"(1) [OF True this "3.prems"(2)] show ?thesis by simp
    qed
  next
    case False
    show ?thesis
    proof (cases "is_linebreak c'")
      case lb: True
      with False "3.prems" have "x = rev cur \<or> x \<in> set (splitlines_from [] (d # cs))" by auto
      then show ?thesis
      proof
        assume "x = rev cur"
        with "3.prems" show ?thesis by simp
      next
        assume "x \<in> set (splitlines_from [] (d # cs))"
        from "3.IH"(2) [OF False lb this "3.prems"(2)] show ?thesis by simp
      qed
    next
      case nlb: False
      with False "3.prems" have "x \<in> set (splitlines_from (c' # cur) (d # cs))" by auto
      from "3.IH"(3) [OF False nlb this "3.prems"(2)] nlb show ?thesis by auto
    qed
  qed
qed

lemma splitlines_no_newline: "l \<in> set (splitlines s) \<Longrightarrow> 10 \<notin> set l"
proof
  assume "l \<in> set (splitlines s)" "10 \<in> set l"
  then have "\<not> is_linebreak 10"
    using splitlines_from_chars [of l "[]" s 10] by (simp add: splitlines_def)
  then show False by (simp add: is_linebreak_def)
qed

lemma match_token_exact:
  assumes "tok \<noteq> []" "32 \<notin> set tok" "post = [] \<or> hd post = 32"
  shows "match_token (py ''://'' @ tok @ post) = Some (py ''://'' @ tok)"
proof -
  from assms(2) have a: "\<forall>x \<in> set tok. x \<noteq> 32" by auto
  from assms(3) have "takeWhile (\<lambda>c. c \<noteq> 32) post = []" by (cases post) auto
  with a have "takeWhile (\<lambda>c. c \<noteq> 32) (tok @ post) = tok"
    by (simp add: takeWhile_append2)
  with assms(1) show ?thesis by (simp add: match_token_def)
qed

lemma match_url_exact:
  assumes "url_token u" "post = [] \<or> hd post = 32"
  shows "match_url (u @ post) = Some u"
proof -
  from assms(1) obtain scheme tok where
    h: "u = scheme @ tok" "scheme = py ''http://'' \<or> scheme = py ''https://''" "tok \<noteq> []"
      "32 \<notin> set tok"
    unfolding url_token_def by blast
  note t = match_token_exact [OF h(3,4) assms(2)]
  from h(2) show ?thesis
  proof
    assume s: "scheme = py ''http://''"
    then have u: "u @ post = py ''http'' @ py ''://'' @ tok @ post" by (simp add: h(1) py_def)
    have ns: "\<not> startswith (py ''://'' @ tok @ post) (py ''s'')"
      by (simp add: startswith_def py_def)
    have "u = py ''http'' @ py ''://'' @ tok" by (simp add: h(1) s py_def)
    with t show ?thesis unfolding u match_url_def by (simp add: ns)
  next
    assume s: "scheme = py ''https://''"
    then have u: "u @ post = py ''http'' @ py ''s'' @ py ''://'' @ tok @ post"
      by (simp add: h(1) py_def)
    have "u = py ''https'' @ py ''://'' @ tok" by (simp add: h(1) s py_def)
    with t show ?thesis unfolding u match_url_def by simp
  qed
qed

lemma match_tail_exact:
  "url_token u \<Longrightarrow> post = [] \<or> hd post = 32 \<Longrightarrow> match_tail (py '': '' @ u @ post) = Some u"
  by (simp add: match_tail_def match_url_exact)

lemma match_star_max:
  "match_star k s = Some u \<Longrightarrow>
     \<exists>j \<le> k. match_tail (drop j s) = Some u \<and> (\<forall>j'. j < j' \<and> j' \<le> k \<longrightarrow> match_tail (drop j' s) = None)"
proof (induction k)
  case 0
  then show ?case by simp
next
  case (Suc k)
  show ?case
  proof (cases "match_tail (drop (Suc k) s)")
    case None
    with Suc.prems have "match_star k s = Some u" by simp
    from Suc.IH [OF this] obtain j where
      j: "j \<le> k" "match_tail (drop j s) = Some u"
        "\<forall>j'. j < j' \<and> j' \<le> k \<longrightarrow> match_tail (drop j' s) = None"
      by blast
    have "\<forall>j'. j < j' \<and> j' \<le> Suc k \<longrightarrow> match_tail (drop j' s) = None"
    proof (intro allI impI)
      fix j'
      assume a: "j < j' \<and> j' \<le> Suc k"
      show "match_tail (drop j' s) = None"
      proof (cases "j' = Suc k")
        case True
        with None show ?thesis by simp
      next
        case False
        with a have "j < j' \<and> j' \<le> k" by simp
        with j(3) show ?thesis by blast
      qed
    qed
    with j(1,2) have "j \<le> Suc k \<and> match_tail (drop j s) = Some u \<and>
        (\<forall>j'. j < j' \<and> j' \<le> Suc k \<longrightarrow> match_tail (drop j' s) = None)"
      by simp
    then show ?thesis by blast
  next
    case (Some v)
    with Suc.prems have "Suc k \<le> Suc k \<and> match_tail (drop (Suc k) s) = Some u \<and>
        (\<forall>j'. Suc k < j' \<and> j' \<le> Suc k \<longrightarrow> match_tail (drop j' s) = None)"
      by auto
    then show ?thesis by blast
  qed
qed

lemma search_first:
  "DOWNLOADED_RE_search l = Some u \<Longrightarrow>
     \<exists>n. match_at (drop n l) = Some u \<and> (\<forall>m < n. match_at (drop m l) = None)"
proof (induction l)
  case Nil
  then have "match_at (drop 0 []) = Some u \<and> (\<forall>m < 0. match_at (drop m []) = None)" by simp
  then show ?case by (rule exI)
next
  case (Cons c cs)
  show ?case
  proof (cases "match_at (c # cs)")
    case None
    with Cons.prems have "DOWNLOADED_RE_search cs = Some u" by simp
    from Cons.IH [OF this] obtain n where
      n: "match_at (drop n cs) = Some u" "\<forall>m < n. match_at (drop m cs) = None" by blast
    have "\<forall>m < Suc n. match_at (drop m (c # cs)) = None"
    proof (intro allI impI)
      fix m
      assume "m < Suc n"
      then show "match_at (drop m (c # cs)) = None"
        using None n(2) by (cases m) simp_all
    qed
    with n(1) have "match_at (drop (Suc n) (c # cs)) = Some u \<and>
        (\<forall>m < Suc n. match_at (drop m (c # cs)) = None)" by simp
    then show ?thesis by (rule exI)
  next
    case (Some v)
    with Cons.prems have "match_at (drop 0 (c # cs)) = Some u \<and>
        (\<forall>m < 0. match_at (drop m (c # cs)) = None)" by simp
    then show ?thesis by (rule exI)
  qed
qed

lemma match_at_max:
  assumes "match_at s = Some u" "10 \<notin> set s"
  shows "\<exists>r j. s = py ''Downloaded from '' @ r \<and> j \<le> length r \<and>
           match_tail (drop j r) = Some u \<and>
           (\<forall>j'. j < j' \<and> j' \<le> length r \<longrightarrow> match_tail (drop j' r) = None)"
proof -
  from assms(1) have sw: "startswith s (py ''Downloaded from '')"
    by (auto simp: match_at_def split: if_splits)
  then obtain r where s: "s = py ''Downloaded from '' @ r" by (rule startswithE)
  from assms(2) have "\<forall>x \<in> set r. x \<noteq> 10" unfolding s by auto
  then have k: "takeWhile (\<lambda>c. c \<noteq> 10) r = r" by (simp add: takeWhile_eq_all_conv)
  from assms(1) have "match_star (length r) r = Some u"
    unfolding s by (simp add: match_at_def Let_def k)
  from match_star_max [OF this] s show ?thesis by blast
qed

lemma colon_space: "py '': '' = [58, 32]"
  by (simp add: py_def)

lemma search_spec:
  assumes "DOWNLOADED_RE_search l = Some u" "10 \<notin> set l"
  shows "spec_downloaded_line l u"
proof -
  from search_first [OF assms(1)] obtain n where n: "match_at (drop n l) = Some u" by blast
  from assms(2) have "10 \<notin> set (drop n l)" by (auto dest: in_set_dropD)
  from match_at_max [OF n this] obtain r j where
    s: "drop n l = py ''Downloaded from '' @ r" and
    mt: "match_tail (drop j r) = Some u" and
    mx: "\<forall>j'. j < j' \<and> j' \<le> length r \<longrightarrow> match_tail (drop j' r) = None"
    by blast
  from match_tail_Some [OF mt] obtain post where
    p: "drop j r = py '': '' @ u @ post" "url_token u" "post = [] \<or> hd post = 32" by blast
  have "l = take n l @ drop n l" by simp
  also have "drop n l = py ''Downloaded from '' @ take j r @ drop j r" by (simp add: s)
  finally have l: "l = take n l @ py ''Downloaded from '' @ take j r @ py '': '' @ u @ post"
    by (simp only: p(1))
  have last: "\<not> (\<exists>b u' post'. u @ post = b @ py '': '' @ u' @ post' \<and> url_token u')"
  proof
    assume "\<exists>b u' post'. u @ post = b @ py '': '' @ u' @ post' \<and> url_token u'"
    then obtain b u' post' where
      b: "u @ post = b @ py '': '' @ u' @ post'" and u': "url_token u'" by blast
    let ?j = "j + (2 + length b)"
    have "drop ?j r = drop (2 + length b) (drop j r)" by (simp add: add.commute)
    also have "\<dots> = drop (2 + length b) ([58, 32] @ b @ py '': '' @ u' @ post')"
      by (simp only: p(1) b colon_space append_assoc)
    also have "\<dots> = py '': '' @ u' @ post'" by simp
    finally have d: "drop ?j r = py '': '' @ u' @ post'" .
    then have "drop ?j r \<noteq> []" by (simp add: colon_space)
    then have "?j \<le> length r" by simp
    moreover have "j < ?j" by simp
    ultimately have "match_tail (drop ?j r) = None" using mx by blast
    with match_tail_complete [OF u', of post'] d show False by simp
  qed
  from l p(2,3) last show ?thesis unfolding spec_downloaded_line_def by blast
qed

lemma spec_search:
  assumes "spec_downloaded_line l u" "10 \<notin> set l"
  shows "DOWNLOADED_RE_search l = Some u"
proof -
  let ?D = "py ''Downloaded from ''"
  from assms(1) obtain pre ident post where
    l: "l = pre @ ?D @ ident @ py '': '' @ u @ post" and
    u: "url_token u" and pc: "post = [] \<or> hd post = 32" and
    last: "\<not> (\<exists>b u' post'. u @ post = b @ py '': '' @ u' @ post' \<and> url_token u')"
    unfolding spec_downloaded_line_def by blast
  from assms(2) have ni: "10 \<notin> set ident" unfolding l by simp
  have at: "match_at (drop (length pre) l) \<noteq> None"
    unfolding l using match_at_complete [OF ni u] by simp
  then have "DOWNLOADED_RE_search l \<noteq> None" by (rule search_complete)
  then obtain u0 where u0: "DOWNLOADED_RE_search l = Some u0" by blast
  from search_first [OF u0] obtain n where
    n: "match_at (drop n l) = Some u0" and nmin: "\<forall>m < n. match_at (drop m l) = None" by blast
  have nle: "n \<le> length pre"
  proof (rule ccontr)
    assume "\<not> n \<le> length pre"
    then have "length pre < n" by simp
    then have "match_at (drop (length pre) l) = None" by (rule nmin [rule_format])
    with at show False by (rule notE)
  qed
  from assms(2) have "10 \<notin> set (drop n l)" by (auto dest: in_set_dropD)
  from match_at_max [OF n this] obtain r j where
    s: "drop n l = ?D @ r" and
    mt: "match_tail (drop j r) = Some u0" and
    mx: "\<forall>j'. j < j' \<and> j' \<le> length r \<longrightarrow> match_tail (drop j' r) = None"
    by blast
  have r: "r = drop (length ?D) (drop n l)" by (simp add: s)
  let ?k = "(length pre - n) + length ident"
  have "drop ?k r = drop (?k + length ?D + n) l" by (simp add: r add.commute add.left_commute)
  also from nle have "?k + length ?D + n = length (pre @ ?D @ ident)" by simp
  also have "drop (length (pre @ ?D @ ident)) l = py '': '' @ u @ post"
    by (subst l) (simp only: append_assoc [symmetric] append_eq_conv_conj, simp)
  finally have dk: "drop ?k r = py '': '' @ u @ post" .
  then have mk: "match_tail (drop ?k r) = Some u" by (simp add: match_tail_exact [OF u pc])
  from dk have "drop ?k r \<noteq> []" by (simp add: colon_space)
  then have kle: "?k \<le> length r" by simp
  have "j = ?k"
  proof (rule ccontr)
    assume ne: "j \<noteq> ?k"
    show False
    proof (cases "j < ?k")
      case True
      with kle mx have "match_tail (drop ?k r) = None" by blast
      with mk show False by simp
    next
      case False
      with ne have gt: "?k < j" by simp
      from match_tail_Some [OF mt] obtain post0 where
        p0: "drop j r = py '': '' @ u0 @ post0" "url_token u0" by blast
      define d where "d = j - Suc ?k"
      from gt have d: "j = ?k + Suc d" by (simp add: d_def)
      have "drop j r = drop (Suc d) (drop ?k r)" by (simp add: d add.commute)
      also have "\<dots> = drop d (32 # u @ post)" by (simp add: dk colon_space)
      finally have e: "drop d (32 # u @ post) = 58 # 32 # u0 @ post0"
        by (simp add: p0(1) colon_space)
      show False
      proof (cases d)
        case 0
        with e show False by simp
      next
        case (Suc d')
        with e have dd: "drop d' (u @ post) = py '': '' @ u0 @ post0" by (simp add: colon_space)
        have "take d' (u @ post) @ drop d' (u @ post) = u @ post" by (rule append_take_drop_id)
        then have "u @ post = take d' (u @ post) @ py '': '' @ u0 @ post0"
          unfolding dd by (rule sym)
        with p0(2) last show False by blast
      qed
    qed
  qed
  with mt mk have "u0 = u" by simp
  with u0 show ?thesis by simp
qed

lemma search_spec_iff:
  "10 \<notin> set l \<Longrightarrow> (DOWNLOADED_RE_search l = Some u) = spec_downloaded_line l u"
  using search_spec spec_search by blast

lemma spec_downloaded_line_unique:
  "10 \<notin> set l \<Longrightarrow> spec_downloaded_line l u \<Longrightarrow> spec_downloaded_line l u' \<Longrightarrow> u = u'"
  using spec_search [of l u] spec_search [of l u'] by simp

section \<open>Extraction from the build log\<close>

lemmas regex_eval = py_def match_at_def match_tail_def match_url_def match_token_def
  startswith_def

lemma parse_url_loop_url:
  "parse_url_loop bases u = Inr a \<Longrightarrow> url a = u"
  by (induction bases) (auto split: if_splits)

lemma extract_lines_append:
  "extract_lines (xs @ ys) =
     (case snd (extract_lines xs) of
        Some e \<Rightarrow> extract_lines xs
      | None \<Rightarrow> (fst (extract_lines xs) @ fst (extract_lines ys), snd (extract_lines ys)))"
  by (induction xs) (auto split: option.splits sum.splits)

lemma extract_lines_unknown:
  assumes "DOWNLOADED_RE_search l = Some u" "parse_url u = Inl e"
  shows "fst (extract_lines (pre @ l # post)) = fst (extract_lines pre) \<and>
         snd (extract_lines (pre @ l # post)) \<noteq> None \<and>
         (snd (extract_lines pre) = None \<longrightarrow> snd (extract_lines (pre @ l # post)) = Some e)"
  using assms by (cases "snd (extract_lines pre)") (simp_all add: extract_lines_append)

text \<open>
  C3. A URL that starts with none of the known bases is not classified: \<open>parse_url\<close>
  raises \<^verbatim>\<open>ValueError\<close> with a message that begins with the URL, so no reference is
  produced. Consequently, when a line of the build log yields such a URL, the extraction
  yields exactly the references of the lines before it and then ends with an exception,
  which is that \<^verbatim>\<open>ValueError\<close> unless an earlier line has already raised; nothing is
  yielded for the line itself or for any line after it.
\<close>

theorem parse_url_unknown_base:
  assumes "\<not> (\<exists>b \<in> set REPO_BASES. startswith u b)"
  shows "parse_url u = Inl (ValueError (u @ py '' is not from a known Maven repository'')) \<and>
         (\<forall>build_log pre l post.
            splitlines build_log = pre @ l # post \<and> DOWNLOADED_RE_search l = Some u \<longrightarrow>
            fst (extract_downloaded_artifacts build_log) = fst (extract_lines pre) \<and>
            snd (extract_downloaded_artifacts build_log) \<noteq> None \<and>
            (snd (extract_lines pre) = None \<longrightarrow>
               snd (extract_downloaded_artifacts build_log) =
                 Some (ValueError (u @ py '' is not from a known Maven repository''))))"
proof -
  have p: "parse_url u = Inl (ValueError (u @ py '' is not from a known Maven repository''))"
  proof -
    from assms have "\<forall>b \<in> set REPO_BASES. \<not> startswith u b" by blast
    then show ?thesis unfolding parse_url_def by (rule parse_url_loop_none)
  qed
  show ?thesis
  proof (intro conjI allI impI)
    show "parse_url u = Inl (ValueError (u @ py '' is not from a known Maven repository''))"
      by (rule p)
  next
    fix build_log pre l post
    assume a: "splitlines build_log = pre @ l # post \<and> DOWNLOADED_RE_search l = Some u"
    from a have s: "DOWNLOADED_RE_search l = Some u" by simp
    from a have e: "extract_downloaded_artifacts build_log = extract_lines (pre @ l # post)"
      by (simp add: extract_downloaded_artifacts_def)
    note r = extract_lines_unknown [OF s p, of pre post]
    show "fst (extract_downloaded_artifacts build_log) = fst (extract_lines pre)"
      unfolding e using r by simp
    show "snd (extract_downloaded_artifacts build_log) \<noteq> None"
      unfolding e using r by simp
    assume "snd (extract_lines pre) = None"
    then show "snd (extract_downloaded_artifacts build_log) =
        Some (ValueError (u @ py '' is not from a known Maven repository''))"
      unfolding e using r by simp
  qed
qed

theorem parse_url_unknown_base_witness:
  "\<not> (\<exists>b \<in> set REPO_BASES. startswith (py ''https://evil.test/x.pom'') b) \<and>
   parse_url (py ''https://evil.test/x.pom'') =
     Inl (ValueError (py ''https://evil.test/x.pom'' @ py '' is not from a known Maven repository'')) \<and>
   fst (extract_downloaded_artifacts (py ''Downloaded from r: https://evil.test/x.pom (1 kB)'')) = [] \<and>
   snd (extract_downloaded_artifacts (py ''Downloaded from r: https://evil.test/x.pom (1 kB)'')) =
     Some (ValueError (py ''https://evil.test/x.pom'' @ py '' is not from a known Maven repository''))"
proof -
  have h: "\<not> (\<exists>b \<in> set REPO_BASES. startswith (py ''https://evil.test/x.pom'') b)"
    by (simp add: REPO_BASES_def py_def startswith_def)
  have s: "splitlines (py ''Downloaded from r: https://evil.test/x.pom (1 kB)'') =
      [] @ py ''Downloaded from r: https://evil.test/x.pom (1 kB)'' # []"
    by (simp add: py_def splitlines_def is_linebreak_def)
  have m: "DOWNLOADED_RE_search (py ''Downloaded from r: https://evil.test/x.pom (1 kB)'') =
      Some (py ''https://evil.test/x.pom'')"
    by (simp add: regex_eval)
  note t = parse_url_unknown_base [OF h]
  from t have t1: "parse_url (py ''https://evil.test/x.pom'') =
     Inl (ValueError (py ''https://evil.test/x.pom'' @ py '' is not from a known Maven repository''))"
    by (rule conjunct1)
  from t s m have
    "fst (extract_downloaded_artifacts (py ''Downloaded from r: https://evil.test/x.pom (1 kB)'')) =
       fst (extract_lines []) \<and>
     (snd (extract_lines []) = None \<longrightarrow>
      snd (extract_downloaded_artifacts (py ''Downloaded from r: https://evil.test/x.pom (1 kB)'')) =
        Some (ValueError (py ''https://evil.test/x.pom'' @ py '' is not from a known Maven repository'')))"
    by blast
  then have t2:
    "fst (extract_downloaded_artifacts (py ''Downloaded from r: https://evil.test/x.pom (1 kB)'')) = [] \<and>
     snd (extract_downloaded_artifacts (py ''Downloaded from r: https://evil.test/x.pom (1 kB)'')) =
        Some (ValueError (py ''https://evil.test/x.pom'' @ py '' is not from a known Maven repository''))"
    by simp
  from h t1 t2 show ?thesis by blast
qed


lemma parse_url_url: "parse_url u = Inr a \<Longrightarrow> url a = u"
  unfolding parse_url_def by (rule parse_url_loop_url)

lemma extract_lines_no_match:
  "\<forall>l \<in> set ls. DOWNLOADED_RE_search l = None \<Longrightarrow> extract_lines ls = ([], None)"
  by (induction ls) simp_all

lemma contains_search:
  assumes "10 \<notin> set l"
  shows "contains_download l \<longleftrightarrow> DOWNLOADED_RE_search l \<noteq> None"
proof
  assume "contains_download l"
  then obtain pre ident u post where
    l: "l = pre @ py ''Downloaded from '' @ ident @ py '': '' @ u @ post" and u: "url_token u"
    unfolding contains_download_def by blast
  from assms have ni: "10 \<notin> set ident" unfolding l by simp
  have "match_at (drop (length pre) l) \<noteq> None"
    unfolding l using match_at_complete [OF ni u] by simp
  then show "DOWNLOADED_RE_search l \<noteq> None" by (rule search_complete)
next
  assume "DOWNLOADED_RE_search l \<noteq> None"
  then obtain u where "DOWNLOADED_RE_search l = Some u" by blast
  from search_spec [OF this assms] show "contains_download l"
    unfolding spec_downloaded_line_def contains_download_def by blast
qed

lemma contains_spec:
  assumes "10 \<notin> set l"
  shows "contains_download l \<longleftrightarrow> (\<exists>u. spec_downloaded_line l u)"
  unfolding contains_search [OF assms] using search_spec_iff [OF assms] by auto

lemma extract_lines_spec:
  assumes "\<forall>l \<in> set ls. 10 \<notin> set l"
    and "\<forall>l \<in> set ls. \<forall>u. spec_downloaded_line l u \<longrightarrow> (\<exists>b \<in> set REPO_BASES. startswith u b)"
  shows "snd (extract_lines ls) = None \<and>
         list_all2 (\<lambda>r l. spec_downloaded_line l (url r) \<and> parse_url (url r) = Inr r)
           (fst (extract_lines ls)) (filter contains_download ls)"
  using assms
proof (induction ls)
  case Nil
  then show ?case by simp
next
  case (Cons l ls)
  from Cons.prems have nl: "10 \<notin> set l" by simp
  from Cons.prems have ih: "snd (extract_lines ls) = None \<and>
         list_all2 (\<lambda>r l. spec_downloaded_line l (url r) \<and> parse_url (url r) = Inr r)
           (fst (extract_lines ls)) (filter contains_download ls)"
    by (intro Cons.IH) simp_all
  show ?case
  proof (cases "DOWNLOADED_RE_search l")
    case None
    then have "\<not> contains_download l" by (simp add: contains_search [OF nl])
    with None ih show ?thesis by simp
  next
    case (Some u)
    then have c: "contains_download l" by (simp add: contains_search [OF nl])
    from Some have sp: "spec_downloaded_line l u" by (rule search_spec [OF _ nl])
    with Cons.prems(2) have "\<exists>b \<in> set REPO_BASES. startswith u b" by simp
    from parse_url_loop_found [OF this] obtain a where a: "parse_url u = Inr a"
      unfolding parse_url_def by blast
    from parse_url_url [OF a] have ua: "url a = u" .
    from Some a c ih sp ua show ?thesis by simp
  qed
qed

lemma extract_lines_none:
  assumes "\<forall>l \<in> set ls. 10 \<notin> set l" "\<forall>l \<in> set ls. \<not> contains_download l"
  shows "extract_lines ls = ([], None)"
proof (rule extract_lines_no_match)
  show "\<forall>l \<in> set ls. DOWNLOADED_RE_search l = None"
  proof
    fix l
    assume "l \<in> set ls"
    with assms have "10 \<notin> set l" "\<not> contains_download l" by simp_all
    then show "DOWNLOADED_RE_search l = None" by (simp add: contains_search)
  qed
qed

text \<open>
  C4, amended. For every build log in which the URL token of every download line starts
  with a known base, the extraction ends without an exception and yields exactly one
  reference per download line, in the order of the lines and without removing duplicates:
  the references correspond one to one, in order, to the lines of the log that contain
  \<^verbatim>\<open>Downloaded from \<close>, an identifier, a colon, a space and a URL token; the URL of each
  reference is the token extracted from its line, that is, the last URL token of the line
  that follows a colon and a space, up to the next space or the end of the line; and the
  reference is the classification of that token. A line has at most one extracted token,
  and it has one exactly when it is a download line. A log with no download line gives the
  empty sequence.
\<close>

theorem extract_one_reference_per_line:
  assumes "\<forall>l \<in> set (splitlines build_log). \<forall>u.
             spec_downloaded_line l u \<longrightarrow> (\<exists>b \<in> set REPO_BASES. startswith u b)"
  shows "snd (extract_downloaded_artifacts build_log) = None \<and>
         list_all2 (\<lambda>r l. spec_downloaded_line l (url r) \<and> parse_url (url r) = Inr r)
           (fst (extract_downloaded_artifacts build_log))
           (filter contains_download (splitlines build_log)) \<and>
         (\<forall>l \<in> set (splitlines build_log). \<forall>u u'.
            spec_downloaded_line l u \<and> spec_downloaded_line l u' \<longrightarrow> u = u') \<and>
         (\<forall>l \<in> set (splitlines build_log). contains_download l = (\<exists>u. spec_downloaded_line l u)) \<and>
         ((\<forall>l \<in> set (splitlines build_log). \<not> contains_download l) \<longrightarrow>
            extract_downloaded_artifacts build_log = ([], None))"
proof -
  have nl: "\<forall>l \<in> set (splitlines build_log). 10 \<notin> set l"
    using splitlines_no_newline by blast
  note k = extract_lines_spec [OF nl assms]
  have uq: "\<forall>l \<in> set (splitlines build_log). \<forall>u u'.
            spec_downloaded_line l u \<and> spec_downloaded_line l u' \<longrightarrow> u = u'"
    using nl spec_downloaded_line_unique by blast
  have cs: "\<forall>l \<in> set (splitlines build_log). contains_download l = (\<exists>u. spec_downloaded_line l u)"
    using nl contains_spec by blast
  have none: "(\<forall>l \<in> set (splitlines build_log). \<not> contains_download l) \<longrightarrow>
      extract_lines (splitlines build_log) = ([], None)"
    using extract_lines_none [OF nl] by blast
  from k uq cs none show ?thesis
    unfolding extract_downloaded_artifacts_def by (intro conjI) simp_all
qed

theorem extract_one_reference_per_line_witness:
  "snd (extract_downloaded_artifacts
        (py ''Downloaded from central: https://repo.maven.apache.org/maven2/a.jar (2 kB)'' @ [10] @
         py ''[INFO] Building'' @ [10] @
         py ''Downloaded from central: https://repo.maven.apache.org/maven2/a.jar (2 kB)'')) = None \<and>
   list_all2 (\<lambda>r l. spec_downloaded_line l (url r) \<and> parse_url (url r) = Inr r)
     (fst (extract_downloaded_artifacts
        (py ''Downloaded from central: https://repo.maven.apache.org/maven2/a.jar (2 kB)'' @ [10] @
         py ''[INFO] Building'' @ [10] @
         py ''Downloaded from central: https://repo.maven.apache.org/maven2/a.jar (2 kB)'')))
     (filter contains_download (splitlines
        (py ''Downloaded from central: https://repo.maven.apache.org/maven2/a.jar (2 kB)'' @ [10] @
         py ''[INFO] Building'' @ [10] @
         py ''Downloaded from central: https://repo.maven.apache.org/maven2/a.jar (2 kB)''))) \<and>
   map url (fst (extract_downloaded_artifacts
        (py ''Downloaded from central: https://repo.maven.apache.org/maven2/a.jar (2 kB)'' @ [10] @
         py ''[INFO] Building'' @ [10] @
         py ''Downloaded from central: https://repo.maven.apache.org/maven2/a.jar (2 kB)''))) =
     [py ''https://repo.maven.apache.org/maven2/a.jar'',
      py ''https://repo.maven.apache.org/maven2/a.jar''] \<and>
   filter contains_download (splitlines
        (py ''Downloaded from central: https://repo.maven.apache.org/maven2/a.jar (2 kB)'' @ [10] @
         py ''[INFO] Building'' @ [10] @
         py ''Downloaded from central: https://repo.maven.apache.org/maven2/a.jar (2 kB)'')) =
     [py ''Downloaded from central: https://repo.maven.apache.org/maven2/a.jar (2 kB)'',
      py ''Downloaded from central: https://repo.maven.apache.org/maven2/a.jar (2 kB)'']"
proof -
  let ?l1 = "py ''Downloaded from central: https://repo.maven.apache.org/maven2/a.jar (2 kB)''"
  let ?l2 = "py ''[INFO] Building''"
  let ?L = "?l1 @ [10] @ ?l2 @ [10] @ ?l1"
  let ?u = "py ''https://repo.maven.apache.org/maven2/a.jar''"
  have s: "splitlines ?L = [?l1, ?l2, ?l1]"
    by (simp add: py_def splitlines_def is_linebreak_def)
  have n1: "10 \<notin> set ?l1" and n2: "10 \<notin> set ?l2" by (simp_all add: py_def)
  have m1: "DOWNLOADED_RE_search ?l1 = Some ?u" by (simp add: regex_eval)
  have m2: "DOWNLOADED_RE_search ?l2 = None" by (simp add: regex_eval)
  have b: "\<exists>b \<in> set REPO_BASES. startswith ?u b"
    by (simp add: REPO_BASES_def py_def startswith_def)
  have h1: "\<forall>u. spec_downloaded_line ?l1 u \<longrightarrow> (\<exists>b \<in> set REPO_BASES. startswith u b)"
    unfolding search_spec_iff [OF n1, symmetric] m1 using b by simp
  have h2: "\<forall>u. spec_downloaded_line ?l2 u \<longrightarrow> (\<exists>b \<in> set REPO_BASES. startswith u b)"
    unfolding search_spec_iff [OF n2, symmetric] m2 by simp
  have h: "\<forall>l \<in> set (splitlines ?L). \<forall>u.
      spec_downloaded_line l u \<longrightarrow> (\<exists>b \<in> set REPO_BASES. startswith u b)"
    unfolding s using h1 h2 by simp
  note t = extract_one_reference_per_line [OF h]
  have c1: "contains_download ?l1" unfolding contains_search [OF n1] m1 by simp
  have c2: "\<not> contains_download ?l2" unfolding contains_search [OF n2] m2 by simp
  have f: "filter contains_download (splitlines ?L) = [?l1, ?l1]"
    unfolding s using c1 c2 by simp
  have p: "parse_url ?u = Inr \<lparr>url = ?u, repo_base_url = py ''https://repo.maven.apache.org/maven2/'',
      relpath = py ''a.jar''\<rparr>"
    by (simp add: parse_url_def REPO_BASES_def py_def startswith_def)
  have e: "map url (fst (extract_downloaded_artifacts ?L)) = [?u, ?u]"
    unfolding extract_downloaded_artifacts_def s
    by (simp only: extract_lines.simps m1 m2 p option.case sum.case fst_conv snd_conv
        list.map ArtifactUrl.simps)
  from t have t1: "snd (extract_downloaded_artifacts ?L) = None" by (rule conjunct1)
  from t have t2: "list_all2 (\<lambda>r l. spec_downloaded_line l (url r) \<and> parse_url (url r) = Inr r)
     (fst (extract_downloaded_artifacts ?L)) (filter contains_download (splitlines ?L))"
    by blast
  from t1 t2 e f show ?thesis by (intro conjI)
qed

text \<open>
  C4 as stated fails: this one-line log is a download line, yet no reference is produced
  for it, because its URL is of no known repository and the extraction raises.
\<close>

theorem extract_unknown_origin_counterexample:
  "splitlines (py ''Downloaded from x: http://example.test/a.jar'') =
     [py ''Downloaded from x: http://example.test/a.jar''] \<and>
   DOWNLOADED_RE_search (py ''Downloaded from x: http://example.test/a.jar'') =
     Some (py ''http://example.test/a.jar'') \<and>
   extract_downloaded_artifacts (py ''Downloaded from x: http://example.test/a.jar'') =
     ([], Some (ValueError (py ''http://example.test/a.jar is not from a known Maven repository'')))"
proof -
  have s: "splitlines (py ''Downloaded from x: http://example.test/a.jar'') =
     [py ''Downloaded from x: http://example.test/a.jar'']"
    by (simp add: py_def splitlines_def is_linebreak_def)
  have m: "DOWNLOADED_RE_search (py ''Downloaded from x: http://example.test/a.jar'') =
     Some (py ''http://example.test/a.jar'')"
    by (simp add: regex_eval)
  have p: "parse_url (py ''http://example.test/a.jar'') =
     Inl (ValueError (py ''http://example.test/a.jar is not from a known Maven repository''))"
    by (simp add: parse_url_def REPO_BASES_def py_def startswith_def)
  show ?thesis
    by (simp only: s m p extract_downloaded_artifacts_def extract_lines.simps option.case
        sum.case simp_thms)
qed

section \<open>Reading the manifest\<close>

lemmas str_eval = py_def startswith_def splitlines_def is_linebreak_def is_space_def
  strip_def strip_quotes_def strip_chars_def split_colon1_def after_colon_def

lemma after_colon_colon: "58 \<in> set l \<Longrightarrow> after_colon l = Inr (colon_value l)"
proof -
  assume "58 \<in> set l"
  then have "dropWhile (\<lambda>c. c \<noteq> 58) l \<noteq> []" by (auto simp: dropWhile_eq_Nil_conv)
  then obtain x xs where d: "dropWhile (\<lambda>c. c \<noteq> 58) l = x # xs"
    by (cases "dropWhile (\<lambda>c. c \<noteq> 58) l") auto
  show ?thesis unfolding after_colon_def split_colon1_def colon_value_def Let_def d by simp
qed

lemma after_colon_no_colon: "58 \<notin> set l \<Longrightarrow> after_colon l = Inl IndexError"
proof -
  assume "58 \<notin> set l"
  then have d: "dropWhile (\<lambda>c. c \<noteq> 58) l = []" by (auto simp: dropWhile_eq_Nil_conv)
  show ?thesis unfolding after_colon_def split_colon1_def Let_def d by simp
qed

lemma sdk_line_colon: "is_sdk_line l \<Longrightarrow> 58 \<in> set l"
  by (auto simp: is_sdk_line_def startswith_def prefix_def py_def)

lemma last_value_Nil [simp]: "last_value P f init [] = init"
  by (simp add: last_value_def)

lemma last_value_single: "last_value P f init [x] = (if P x then Some (f x) else init)"
  by (simp add: last_value_def)

lemma last_value_Cons: "last_value P f init (x # ls) = last_value P f (last_value P f init [x]) ls"
  by (cases "rev (filter P ls)") (simp_all add: last_value_def)

lemma sdk_update_ok:
  assumes "\<not> bad_version_line l"
  shows "sdk_update n v l =
    Inr (last_value is_sdk_line sdk_value n [l], last_value is_version_line version_value v [l])"
proof (cases "is_sdk_line l")
  case True
  then have "\<not> is_version_line l" by (simp add: is_sdk_line_def is_version_line_def)
  with True after_colon_colon [OF sdk_line_colon [OF True]] show ?thesis
    by (simp add: sdk_update_def last_value_single sdk_value_def is_sdk_line_def)
next
  case False
  show ?thesis
  proof (cases "is_version_line l")
    case True
    with assms have "58 \<in> set l" by (simp add: bad_version_line_def)
    from True False after_colon_colon [OF this] show ?thesis
      by (simp add: sdk_update_def last_value_single version_value_def is_sdk_line_def
          is_version_line_def)
  next
    case nv: False
    with False show ?thesis
      by (simp add: sdk_update_def last_value_single is_sdk_line_def is_version_line_def)
  qed
qed

lemma sdk_update_bad: "bad_version_line l \<Longrightarrow> sdk_update n v l = Inl IndexError"
  by (simp add: bad_version_line_def is_version_line_def sdk_update_def after_colon_no_colon)

lemma found_from_Nil: "found_from n v [] = both_found n v"
  by (simp add: found_from_def)

lemma found_from_Cons:
  "found_from n v (x # ls) =
     found_from (last_value is_sdk_line sdk_value n [x])
       (last_value is_version_line version_value v [x]) ls"
  unfolding found_from_def
  by (simp only: last_value_Cons [of is_sdk_line sdk_value n x ls]
      last_value_Cons [of is_version_line version_value v x ls])

lemma found_from_single:
  "found_from n v [x] =
     both_found (last_value is_sdk_line sdk_value n [x])
       (last_value is_version_line version_value v [x])"
  by (simp add: found_from_def)

lemma none_upto_Cons:
  "(\<forall>p. prefix p (x # pre) \<longrightarrow> found_from n v p = None) \<longleftrightarrow>
     both_found n v = None \<and>
     (\<forall>p. prefix p pre \<longrightarrow>
        found_from (last_value is_sdk_line sdk_value n [x])
          (last_value is_version_line version_value v [x]) p = None)"
proof (intro iffI conjI allI impI)
  assume a: "\<forall>p. prefix p (x # pre) \<longrightarrow> found_from n v p = None"
  have "prefix [] (x # pre)" by simp
  with a have "found_from n v [] = None" by blast
  then show "both_found n v = None" by (simp add: found_from_Nil)
  fix p
  assume "prefix p pre"
  then have "prefix (x # p) (x # pre)" by simp
  with a have "found_from n v (x # p) = None" by blast
  then show "found_from (last_value is_sdk_line sdk_value n [x])
          (last_value is_version_line version_value v [x]) p = None"
    by (simp only: found_from_Cons)
next
  fix p
  assume b: "both_found n v = None \<and>
     (\<forall>p. prefix p pre \<longrightarrow>
        found_from (last_value is_sdk_line sdk_value n [x])
          (last_value is_version_line version_value v [x]) p = None)"
  assume p: "prefix p (x # pre)"
  show "found_from n v p = None"
  proof (cases p)
    case Nil
    with b show ?thesis by (simp add: found_from_Nil)
  next
    case (Cons y p')
    with p have "y = x" "prefix p' pre" by simp_all
    with b Cons show ?thesis by (simp add: found_from_Cons)
  qed
qed

lemma loop_step_ok:
  assumes "\<not> bad_version_line x"
  shows "parse_from_manifest_loop n v (x # ls) =
     (case found_from n v [x] of
        Some (a, b) \<Rightarrow> Inr \<lparr>name = a, version = b\<rparr>
      | None \<Rightarrow> parse_from_manifest_loop (last_value is_sdk_line sdk_value n [x])
                  (last_value is_version_line version_value v [x]) ls)"
  by (simp add: sdk_update_ok [OF assms] found_from_single)

lemma loop_step_bad:
  "bad_version_line x \<Longrightarrow> parse_from_manifest_loop n v (x # ls) = Inl IndexError"
  by (simp add: sdk_update_bad)

lemma loop_returns:
  assumes "\<forall>p. prefix p pre \<longrightarrow> found_from n v p = None"
    and "\<not> list_ex bad_version_line (pre @ [l])"
    and "found_from n v (pre @ [l]) = Some (a, b)"
  shows "parse_from_manifest_loop n v (pre @ l # post) = Inr \<lparr>name = a, version = b\<rparr>"
  using assms
proof (induction pre arbitrary: n v)
  case Nil
  from Nil.prems(2) have nb: "\<not> bad_version_line l" by simp
  from Nil.prems(3) have "found_from n v [l] = Some (a, b)" by simp
  then show ?case by (simp only: append_Nil loop_step_ok [OF nb] option.case prod.case)
next
  case (Cons x pre)
  let ?n = "last_value is_sdk_line sdk_value n [x]"
  let ?v = "last_value is_version_line version_value v [x]"
  from Cons.prems(2) have nb: "\<not> bad_version_line x"
    and rest: "\<not> list_ex bad_version_line (pre @ [l])" by simp_all
  from Cons.prems(1) [unfolded none_upto_Cons]
  have up: "\<forall>p. prefix p pre \<longrightarrow> found_from ?n ?v p = None" by (rule conjunct2)
  have "prefix [x] (x # pre)" by simp
  with Cons.prems(1) have one: "found_from n v [x] = None" by blast
  from Cons.prems(3) have f: "found_from ?n ?v (pre @ [l]) = Some (a, b)"
    by (simp add: found_from_Cons)
  have step: "parse_from_manifest_loop n v ((x # pre) @ l # post) =
      parse_from_manifest_loop ?n ?v (pre @ l # post)"
    by (simp only: append_Cons loop_step_ok [OF nb] one option.case)
  show ?case unfolding step by (rule Cons.IH [OF up rest f])
qed

lemma loop_index_error:
  assumes "\<forall>p. prefix p pre \<longrightarrow> found_from n v p = None"
    and "\<not> list_ex bad_version_line pre" and "bad_version_line l"
  shows "parse_from_manifest_loop n v (pre @ l # post) = Inl IndexError"
  using assms
proof (induction pre arbitrary: n v)
  case Nil
  from Nil.prems(3) show ?case by (simp only: append_Nil loop_step_bad)
next
  case (Cons x pre)
  let ?n = "last_value is_sdk_line sdk_value n [x]"
  let ?v = "last_value is_version_line version_value v [x]"
  from Cons.prems(2) have nb: "\<not> bad_version_line x"
    and rest: "\<not> list_ex bad_version_line pre" by simp_all
  from Cons.prems(1) [unfolded none_upto_Cons]
  have up: "\<forall>p. prefix p pre \<longrightarrow> found_from ?n ?v p = None" by (rule conjunct2)
  have "prefix [x] (x # pre)" by simp
  with Cons.prems(1) have one: "found_from n v [x] = None" by blast
  have step: "parse_from_manifest_loop n v ((x # pre) @ l # post) =
      parse_from_manifest_loop ?n ?v (pre @ l # post)"
    by (simp only: append_Cons loop_step_ok [OF nb] one option.case)
  show ?case unfolding step by (rule Cons.IH [OF up rest Cons.prems(3)])
qed

lemma loop_lookup_error:
  assumes "\<forall>p. prefix p ls \<longrightarrow> found_from n v p = None"
    and "\<not> list_ex bad_version_line ls"
  shows "parse_from_manifest_loop n v ls =
     Inl (LookupError (py ''Failed to find sdk or runtime-version in manifest''))"
  using assms
proof (induction ls arbitrary: n v)
  case Nil
  then show ?case by simp
next
  case (Cons x ls)
  let ?n = "last_value is_sdk_line sdk_value n [x]"
  let ?v = "last_value is_version_line version_value v [x]"
  from Cons.prems(2) have nb: "\<not> bad_version_line x"
    and rest: "\<not> list_ex bad_version_line ls" by simp_all
  from Cons.prems(1) [unfolded none_upto_Cons]
  have up: "\<forall>p. prefix p ls \<longrightarrow> found_from ?n ?v p = None" by (rule conjunct2)
  have "prefix [x] (x # ls)" by simp
  with Cons.prems(1) have one: "found_from n v [x] = None" by blast
  have step: "parse_from_manifest_loop n v (x # ls) = parse_from_manifest_loop ?n ?v ls"
    by (simp only: loop_step_ok [OF nb] one option.case)
  show ?case unfolding step by (rule Cons.IH [OF up rest])
qed

lemma loop_trichotomy:
  assumes "both_found n v = None"
  shows "(\<exists>pre l post a b. ls = pre @ l # post \<and>
            (\<forall>p. prefix p pre \<longrightarrow> found_from n v p = None) \<and>
            \<not> list_ex bad_version_line (pre @ [l]) \<and>
            found_from n v (pre @ [l]) = Some (a, b)) \<or>
         (\<exists>pre l post. ls = pre @ l # post \<and>
            (\<forall>p. prefix p pre \<longrightarrow> found_from n v p = None) \<and>
            \<not> list_ex bad_version_line pre \<and> bad_version_line l) \<or>
         ((\<forall>p. prefix p ls \<longrightarrow> found_from n v p = None) \<and> \<not> list_ex bad_version_line ls)"
  using assms
proof (induction ls arbitrary: n v)
  case Nil
  then show ?case by (simp add: found_from_Nil)
next
  case (Cons x ls)
  let ?n = "last_value is_sdk_line sdk_value n [x]"
  let ?v = "last_value is_version_line version_value v [x]"
  note b0 = Cons.prems
  show ?case
  proof (cases "bad_version_line x")
    case True
    with b0 have "x # ls = [] @ x # ls \<and>
        (\<forall>p. prefix p [] \<longrightarrow> found_from n v p = None) \<and>
        \<not> list_ex bad_version_line [] \<and> bad_version_line x"
      by (simp add: found_from_Nil)
    then show ?thesis by blast
  next
    case nb: False
    show ?thesis
    proof (cases "found_from n v [x]")
      case (Some ab)
      obtain a b where ab: "ab = (a, b)" by (cases ab)
      from b0 nb Some ab have "x # ls = [] @ x # ls \<and>
          (\<forall>p. prefix p [] \<longrightarrow> found_from n v p = None) \<and>
          \<not> list_ex bad_version_line ([] @ [x]) \<and>
          found_from n v ([] @ [x]) = Some (a, b)"
        by (simp add: found_from_Nil)
      then show ?thesis by blast
    next
      case None
      then have b1: "both_found ?n ?v = None" by (simp add: found_from_single)
      from Cons.IH [OF b1] consider
          (A) pre l post a b where "ls = pre @ l # post"
            "\<forall>p. prefix p pre \<longrightarrow> found_from ?n ?v p = None"
            "\<not> list_ex bad_version_line (pre @ [l])"
            "found_from ?n ?v (pre @ [l]) = Some (a, b)"
        | (B) pre l post where "ls = pre @ l # post"
            "\<forall>p. prefix p pre \<longrightarrow> found_from ?n ?v p = None"
            "\<not> list_ex bad_version_line pre" "bad_version_line l"
        | (C) "\<forall>p. prefix p ls \<longrightarrow> found_from ?n ?v p = None" "\<not> list_ex bad_version_line ls"
        by blast
      then show ?thesis
      proof cases
        case A
        from A(2) b0 have "\<forall>p. prefix p (x # pre) \<longrightarrow> found_from n v p = None"
          by (simp only: none_upto_Cons simp_thms)
        moreover from A(1) have "x # ls = (x # pre) @ l # post" by simp
        moreover from A(3) nb have "\<not> list_ex bad_version_line ((x # pre) @ [l])" by simp
        moreover from A(4) have "found_from n v ((x # pre) @ [l]) = Some (a, b)"
          by (simp add: found_from_Cons)
        ultimately show ?thesis by blast
      next
        case B
        from B(2) b0 have "\<forall>p. prefix p (x # pre) \<longrightarrow> found_from n v p = None"
          by (simp only: none_upto_Cons simp_thms)
        moreover from B(1) have "x # ls = (x # pre) @ l # post" by simp
        moreover from B(3) nb have "\<not> list_ex bad_version_line (x # pre)" by simp
        ultimately show ?thesis using B(4) by blast
      next
        case C
        from C(1) b0 have "\<forall>p. prefix p (x # ls) \<longrightarrow> found_from n v p = None"
          by (simp only: none_upto_Cons simp_thms)
        moreover from C(2) nb have "\<not> list_ex bad_version_line (x # ls)" by simp
        ultimately show ?thesis by blast
      qed
    qed
  qed
qed

lemma last_value_None:
  "last_value P f None ls = (if filter P ls = [] then None else Some (f (last (filter P ls))))"
  by (cases "filter P ls" rule: rev_cases) (simp_all add: last_value_def)

lemma found_after_iff:
  "found_after ls = Some (a, b) \<longleftrightarrow>
     filter is_sdk_line ls \<noteq> [] \<and> a = sdk_value (last (filter is_sdk_line ls)) \<and>
     filter is_version_line ls \<noteq> [] \<and> b = version_value (last (filter is_version_line ls)) \<and>
     a \<noteq> [] \<and> b \<noteq> []"
  unfolding found_after_def found_from_def last_value_None by auto

lemma manifest_cases:
  obtains (returns) pre l post a b where
      "splitlines manifest = pre @ l # post"
      "\<forall>p. prefix p pre \<longrightarrow> found_after p = None"
      "\<not> list_ex bad_version_line (pre @ [l])"
      "found_after (pre @ [l]) = Some (a, b)"
      "parse_from_manifest manifest = Inr \<lparr>name = a, version = b\<rparr>"
    | (index_error) pre l post where
      "splitlines manifest = pre @ l # post"
      "\<forall>p. prefix p pre \<longrightarrow> found_after p = None"
      "\<not> list_ex bad_version_line pre" "bad_version_line l"
      "parse_from_manifest manifest = Inl IndexError"
    | (lookup_error)
      "\<forall>p. prefix p (splitlines manifest) \<longrightarrow> found_after p = None"
      "\<not> list_ex bad_version_line (splitlines manifest)"
      "parse_from_manifest manifest =
         Inl (LookupError (py ''Failed to find sdk or runtime-version in manifest''))"
proof -
  have b: "both_found None None = None" by simp
  from loop_trichotomy [OF b, of "splitlines manifest"] consider
      (A) pre l post a b where "splitlines manifest = pre @ l # post"
        "\<forall>p. prefix p pre \<longrightarrow> found_from None None p = None"
        "\<not> list_ex bad_version_line (pre @ [l])"
        "found_from None None (pre @ [l]) = Some (a, b)"
    | (B) pre l post where "splitlines manifest = pre @ l # post"
        "\<forall>p. prefix p pre \<longrightarrow> found_from None None p = None"
        "\<not> list_ex bad_version_line pre" "bad_version_line l"
    | (C) "\<forall>p. prefix p (splitlines manifest) \<longrightarrow> found_from None None p = None"
        "\<not> list_ex bad_version_line (splitlines manifest)"
    by blast
  then show ?thesis
  proof cases
    case A
    from loop_returns [OF A(2,3,4), of post]
    have "parse_from_manifest manifest = Inr \<lparr>name = a, version = b\<rparr>"
      by (simp only: parse_from_manifest_def A(1))
    with A show ?thesis unfolding found_after_def [symmetric] by (rule returns)
  next
    case B
    from loop_index_error [OF B(2,3,4), of post]
    have "parse_from_manifest manifest = Inl IndexError"
      by (simp only: parse_from_manifest_def B(1))
    with B show ?thesis unfolding found_after_def [symmetric] by (rule index_error)
  next
    case C
    from loop_lookup_error [OF C]
    have "parse_from_manifest manifest =
         Inl (LookupError (py ''Failed to find sdk or runtime-version in manifest''))"
      by (simp only: parse_from_manifest_def)
    with C show ?thesis unfolding found_after_def [symmetric] by (rule lookup_error)
  qed
qed

lemma manifest_returns:
  assumes "splitlines manifest = pre @ l # post"
    "\<forall>p. prefix p pre \<longrightarrow> found_after p = None"
    "\<not> list_ex bad_version_line (pre @ [l])"
    "found_after (pre @ [l]) = Some (a, b)"
  shows "parse_from_manifest manifest = Inr \<lparr>name = a, version = b\<rparr>"
  using loop_returns [OF assms(2,3,4) [unfolded found_after_def], of post]
  by (simp only: parse_from_manifest_def assms(1))

lemma manifest_index_error:
  assumes "splitlines manifest = pre @ l # post"
    "\<forall>p. prefix p pre \<longrightarrow> found_after p = None"
    "\<not> list_ex bad_version_line pre" "bad_version_line l"
  shows "parse_from_manifest manifest = Inl IndexError"
  using loop_index_error [OF assms(2) [unfolded found_after_def] assms(3,4), of post]
  by (simp only: parse_from_manifest_def assms(1))

lemma manifest_lookup_error:
  assumes "\<forall>p. prefix p (splitlines manifest) \<longrightarrow> found_after p = None"
    "\<not> list_ex bad_version_line (splitlines manifest)"
  shows "parse_from_manifest manifest =
    Inl (LookupError (py ''Failed to find sdk or runtime-version in manifest''))"
  using loop_lookup_error [OF assms(1) [unfolded found_after_def] assms(2)]
  by (simp only: parse_from_manifest_def)

text \<open>
  C9, amended. \<open>parse_from_manifest\<close> reads the lines in order; a line starting with
  \<^verbatim>\<open>sdk:\<close> sets the name to the text after its first colon with surrounding whitespace
  removed (quotes are kept), and any other line starting with \<^verbatim>\<open>runtime-version\<close> sets the
  version to the text after its first colon with whitespace and then quotes removed. Its
  three outcomes are characterised exactly. It returns \<open>r\<close> if and only if some line \<open>l\<close>
  is the first after which both values are non-empty, no \<^verbatim>\<open>runtime-version\<close> line up to and
  including \<open>l\<close> lacks a colon, and the name and the version of \<open>r\<close> are the values of the
  last \<^verbatim>\<open>sdk:\<close> line and of the last \<^verbatim>\<open>runtime-version\<close> line up to and including \<open>l\<close>. It
  raises \<^verbatim>\<open>IndexError\<close> if and only if some \<^verbatim>\<open>runtime-version\<close> line lacks a colon and
  the function has not returned before the first such line. It raises the \<^verbatim>\<open>LookupError\<close>
  of its last statement if and only if neither happens. Every failure is a lookup error,
  and the function fails when no line starts with \<^verbatim>\<open>sdk:\<close> or none sets the version.
\<close>

theorem parse_from_manifest_result:
  "(parse_from_manifest manifest = Inr r \<longleftrightarrow>
      (\<exists>pre l post. splitlines manifest = pre @ l # post \<and>
         (\<forall>p. prefix p pre \<longrightarrow> found_after p = None) \<and>
         \<not> list_ex bad_version_line (pre @ [l]) \<and>
         found_after (pre @ [l]) = Some (name r, version r))) \<and>
   (parse_from_manifest manifest = Inl IndexError \<longleftrightarrow>
      (\<exists>pre l post. splitlines manifest = pre @ l # post \<and>
         (\<forall>p. prefix p pre \<longrightarrow> found_after p = None) \<and>
         \<not> list_ex bad_version_line pre \<and> bad_version_line l)) \<and>
   (parse_from_manifest manifest =
      Inl (LookupError (py ''Failed to find sdk or runtime-version in manifest'')) \<longleftrightarrow>
      (\<forall>p. prefix p (splitlines manifest) \<longrightarrow> found_after p = None) \<and>
      \<not> list_ex bad_version_line (splitlines manifest)) \<and>
   (\<forall>e. parse_from_manifest manifest = Inl e \<longrightarrow>
      (e = IndexError \<or>
       e = LookupError (py ''Failed to find sdk or runtime-version in manifest'')) \<and>
      is_LookupError e) \<and>
   (\<forall>ls a b. found_after ls = Some (a, b) \<longleftrightarrow>
      filter is_sdk_line ls \<noteq> [] \<and> a = sdk_value (last (filter is_sdk_line ls)) \<and>
      filter is_version_line ls \<noteq> [] \<and>
      b = version_value (last (filter is_version_line ls)) \<and> a \<noteq> [] \<and> b \<noteq> []) \<and>
   (filter is_sdk_line (splitlines manifest) = [] \<or>
    filter is_version_line (splitlines manifest) = [] \<longrightarrow>
      (\<exists>e. parse_from_manifest manifest = Inl e))"
proof (intro conjI)
  show "parse_from_manifest manifest = Inr r \<longleftrightarrow>
      (\<exists>pre l post. splitlines manifest = pre @ l # post \<and>
         (\<forall>p. prefix p pre \<longrightarrow> found_after p = None) \<and>
         \<not> list_ex bad_version_line (pre @ [l]) \<and>
         found_after (pre @ [l]) = Some (name r, version r))"
  proof
    assume e: "parse_from_manifest manifest = Inr r"
    show "\<exists>pre l post. splitlines manifest = pre @ l # post \<and>
         (\<forall>p. prefix p pre \<longrightarrow> found_after p = None) \<and>
         \<not> list_ex bad_version_line (pre @ [l]) \<and>
         found_after (pre @ [l]) = Some (name r, version r)"
    proof (cases manifest rule: manifest_cases)
      case (returns pre l post a b)
      from returns(5) e have "r = \<lparr>name = a, version = b\<rparr>" by simp
      with returns(4) have "found_after (pre @ [l]) = Some (name r, version r)" by simp
      with returns(1,2,3) show ?thesis by blast
    next
      case (index_error pre l post)
      with e show ?thesis by simp
    next
      case lookup_error
      with e show ?thesis by simp
    qed
  next
    assume "\<exists>pre l post. splitlines manifest = pre @ l # post \<and>
         (\<forall>p. prefix p pre \<longrightarrow> found_after p = None) \<and>
         \<not> list_ex bad_version_line (pre @ [l]) \<and>
         found_after (pre @ [l]) = Some (name r, version r)"
    then obtain pre l post where h: "splitlines manifest = pre @ l # post"
      "\<forall>p. prefix p pre \<longrightarrow> found_after p = None"
      "\<not> list_ex bad_version_line (pre @ [l])"
      "found_after (pre @ [l]) = Some (name r, version r)" by blast
    from manifest_returns [OF h] show "parse_from_manifest manifest = Inr r" by simp
  qed
next
  show "parse_from_manifest manifest = Inl IndexError \<longleftrightarrow>
      (\<exists>pre l post. splitlines manifest = pre @ l # post \<and>
         (\<forall>p. prefix p pre \<longrightarrow> found_after p = None) \<and>
         \<not> list_ex bad_version_line pre \<and> bad_version_line l)"
  proof
    assume e: "parse_from_manifest manifest = Inl IndexError"
    show "\<exists>pre l post. splitlines manifest = pre @ l # post \<and>
         (\<forall>p. prefix p pre \<longrightarrow> found_after p = None) \<and>
         \<not> list_ex bad_version_line pre \<and> bad_version_line l"
    proof (cases manifest rule: manifest_cases)
      case (returns pre l post a b)
      with e show ?thesis by simp
    next
      case (index_error pre l post)
      then show ?thesis by blast
    next
      case lookup_error
      with e show ?thesis by simp
    qed
  next
    assume "\<exists>pre l post. splitlines manifest = pre @ l # post \<and>
         (\<forall>p. prefix p pre \<longrightarrow> found_after p = None) \<and>
         \<not> list_ex bad_version_line pre \<and> bad_version_line l"
    then obtain pre l post where h: "splitlines manifest = pre @ l # post"
      "\<forall>p. prefix p pre \<longrightarrow> found_after p = None"
      "\<not> list_ex bad_version_line pre" "bad_version_line l" by blast
    from manifest_index_error [OF h] show "parse_from_manifest manifest = Inl IndexError" .
  qed
next
  show "parse_from_manifest manifest =
      Inl (LookupError (py ''Failed to find sdk or runtime-version in manifest'')) \<longleftrightarrow>
      (\<forall>p. prefix p (splitlines manifest) \<longrightarrow> found_after p = None) \<and>
      \<not> list_ex bad_version_line (splitlines manifest)"
  proof
    assume e: "parse_from_manifest manifest =
      Inl (LookupError (py ''Failed to find sdk or runtime-version in manifest''))"
    show "(\<forall>p. prefix p (splitlines manifest) \<longrightarrow> found_after p = None) \<and>
      \<not> list_ex bad_version_line (splitlines manifest)"
    proof (cases manifest rule: manifest_cases)
      case (returns pre l post a b)
      with e show ?thesis by simp
    next
      case (index_error pre l post)
      with e show ?thesis by simp
    next
      case lookup_error
      then show ?thesis by blast
    qed
  next
    assume "(\<forall>p. prefix p (splitlines manifest) \<longrightarrow> found_after p = None) \<and>
      \<not> list_ex bad_version_line (splitlines manifest)"
    then show "parse_from_manifest manifest =
      Inl (LookupError (py ''Failed to find sdk or runtime-version in manifest''))"
      using manifest_lookup_error by blast
  qed
next
  show "\<forall>e. parse_from_manifest manifest = Inl e \<longrightarrow>
      (e = IndexError \<or>
       e = LookupError (py ''Failed to find sdk or runtime-version in manifest'')) \<and>
      is_LookupError e"
  proof (cases manifest rule: manifest_cases)
    case (returns pre l post a b)
    then show ?thesis by simp
  next
    case (index_error pre l post)
    then show ?thesis by simp
  next
    case lookup_error
    then show ?thesis by simp
  qed
next
  show "\<forall>ls a b. found_after ls = Some (a, b) \<longleftrightarrow>
      filter is_sdk_line ls \<noteq> [] \<and> a = sdk_value (last (filter is_sdk_line ls)) \<and>
      filter is_version_line ls \<noteq> [] \<and>
      b = version_value (last (filter is_version_line ls)) \<and> a \<noteq> [] \<and> b \<noteq> []"
    by (intro allI) (rule found_after_iff)
next
  show "filter is_sdk_line (splitlines manifest) = [] \<or>
    filter is_version_line (splitlines manifest) = [] \<longrightarrow>
      (\<exists>e. parse_from_manifest manifest = Inl e)"
  proof
    assume m: "filter is_sdk_line (splitlines manifest) = [] \<or>
      filter is_version_line (splitlines manifest) = []"
    show "\<exists>e. parse_from_manifest manifest = Inl e"
    proof (cases manifest rule: manifest_cases)
      case (returns pre l post a b)
      from found_after_iff [THEN iffD1, OF returns(4)]
      have "filter is_sdk_line (pre @ [l]) \<noteq> []"
        and "filter is_version_line (pre @ [l]) \<noteq> []"
        by simp_all
      moreover have "filter is_sdk_line (splitlines manifest) =
          filter is_sdk_line (pre @ [l]) @ filter is_sdk_line post"
        and "filter is_version_line (splitlines manifest) =
          filter is_version_line (pre @ [l]) @ filter is_version_line post"
        unfolding returns(1) by simp_all
      ultimately show ?thesis using m by auto
    next
      case (index_error pre l post)
      then show ?thesis by blast
    next
      case lookup_error
      then show ?thesis by blast
    qed
  qed
qed

theorem parse_from_manifest_result_witness:
  "parse_from_manifest
     (py ''sdk: a'' @ [10] @ py ''sdk: org.freedesktop.Sdk'' @ [10] @
      py ''runtime-version: '' @ [39] @ py ''24.08'' @ [39, 10] @ py ''command: x'') =
     Inr \<lparr>name = py ''org.freedesktop.Sdk'', version = py ''24.08''\<rparr> \<and>
   (\<exists>pre l post.
      splitlines
        (py ''sdk: a'' @ [10] @ py ''sdk: org.freedesktop.Sdk'' @ [10] @
         py ''runtime-version: '' @ [39] @ py ''24.08'' @ [39, 10] @ py ''command: x'') =
        pre @ l # post \<and>
      \<not> list_ex bad_version_line (pre @ [l]) \<and>
      found_after (pre @ [l]) = Some (py ''org.freedesktop.Sdk'', py ''24.08'')) \<and>
   parse_from_manifest (py ''runtime-version'' @ [10] @ py ''sdk: a'' @ [10] @
      py ''runtime-version: 1'') = Inl IndexError \<and>
   parse_from_manifest (py ''sdk: a'' @ [10] @ py ''runtime-version: 1'' @ [10] @
      py ''sdk:'' @ [10] @ py ''sdk: b'') = Inr \<lparr>name = py ''a'', version = py ''1''\<rparr>"
proof -
  let ?M = "py ''sdk: a'' @ [10] @ py ''sdk: org.freedesktop.Sdk'' @ [10] @
      py ''runtime-version: '' @ [39] @ py ''24.08'' @ [39, 10] @ py ''command: x''"
  let ?r = "\<lparr>name = py ''org.freedesktop.Sdk'', version = py ''24.08''\<rparr>"
  have e: "parse_from_manifest ?M = Inr ?r"
    by (simp add: parse_from_manifest_def sdk_update_def str_eval)
  from parse_from_manifest_result [of ?M ?r, THEN conjunct1] e have
    "\<exists>pre l post. splitlines ?M = pre @ l # post \<and>
      (\<forall>p. prefix p pre \<longrightarrow> found_after p = None) \<and>
      \<not> list_ex bad_version_line (pre @ [l]) \<and>
      found_after (pre @ [l]) = Some (name ?r, version ?r)"
    by (rule iffD1)
  then have w: "\<exists>pre l post. splitlines ?M = pre @ l # post \<and>
      \<not> list_ex bad_version_line (pre @ [l]) \<and>
      found_after (pre @ [l]) = Some (py ''org.freedesktop.Sdk'', py ''24.08'')"
    by auto
  have i: "parse_from_manifest (py ''runtime-version'' @ [10] @ py ''sdk: a'' @ [10] @
      py ''runtime-version: 1'') = Inl IndexError"
    by (simp add: parse_from_manifest_def sdk_update_def str_eval)
  have f: "parse_from_manifest (py ''sdk: a'' @ [10] @ py ''runtime-version: 1'' @ [10] @
      py ''sdk:'' @ [10] @ py ''sdk: b'') = Inr \<lparr>name = py ''a'', version = py ''1''\<rparr>"
    by (simp add: parse_from_manifest_def sdk_update_def str_eval)
  from e w i f show ?thesis by (intro conjI)
qed

text \<open>
  C9 as stated fails: the name keeps its quotes, and of two \<^verbatim>\<open>sdk:\<close> lines before the
  version it is the second that is returned.
\<close>

theorem parse_from_manifest_counterexample:
  "parse_from_manifest
     (py ''sdk: '' @ [39] @ py ''org.freedesktop.Sdk'' @ [39, 10] @
      py ''runtime-version: '' @ [39] @ py ''24.08'' @ [39, 10]) =
     Inr \<lparr>name = [39] @ py ''org.freedesktop.Sdk'' @ [39], version = py ''24.08''\<rparr> \<and>
   parse_from_manifest
     (py ''sdk: first'' @ [10] @ py ''sdk: second'' @ [10] @ py ''runtime-version: 1'') =
     Inr \<lparr>name = py ''second'', version = py ''1''\<rparr>"
  by (simp add: parse_from_manifest_def sdk_update_def str_eval)

text \<open>
  C2. The scan is not forward-only: on this manifest, where the module \<^verbatim>\<open>openjdk\<close> with a
  git source of its own precedes the module \<^verbatim>\<open>mediathekview\<close>, the function returns the
  source of \<^verbatim>\<open>openjdk\<close>, while the forward scan of the claim gives that of
  \<^verbatim>\<open>mediathekview\<close>.
\<close>

theorem find_mediathekview_source_not_forward:
  "find_mediathekview_source
     (py ''modules:'' @ [10] @
      py ''  - name: openjdk'' @ [10] @
      py ''    sources:'' @ [10] @
      py ''      - type: git'' @ [10] @
      py ''        url: https://example.test/jdk.git'' @ [10] @
      py ''        commit: 0123'' @ [10] @
      py ''  - name: mediathekview'' @ [10] @
      py ''    sources:'' @ [10] @
      py ''      - type: git'' @ [10] @
      py ''        url: https://example.test/repo.git'' @ [10] @
      py ''        commit: abc123'' @ [10]) =
     Inr \<lparr>git_url = py ''https://example.test/jdk.git'', commit = py ''0123''\<rparr> \<and>
   spec_find_source_forward
     (py ''modules:'' @ [10] @
      py ''  - name: openjdk'' @ [10] @
      py ''    sources:'' @ [10] @
      py ''      - type: git'' @ [10] @
      py ''        url: https://example.test/jdk.git'' @ [10] @
      py ''        commit: 0123'' @ [10] @
      py ''  - name: mediathekview'' @ [10] @
      py ''    sources:'' @ [10] @
      py ''      - type: git'' @ [10] @
      py ''        url: https://example.test/repo.git'' @ [10] @
      py ''        commit: abc123'' @ [10]) =
     Inr \<lparr>git_url = py ''https://example.test/repo.git'', commit = py ''abc123''\<rparr>"
proof -
  have s: "splitlines
     (py ''modules:'' @ [10] @
      py ''  - name: openjdk'' @ [10] @
      py ''    sources:'' @ [10] @
      py ''      - type: git'' @ [10] @
      py ''        url: https://example.test/jdk.git'' @ [10] @
      py ''        commit: 0123'' @ [10] @
      py ''  - name: mediathekview'' @ [10] @
      py ''    sources:'' @ [10] @
      py ''      - type: git'' @ [10] @
      py ''        url: https://example.test/repo.git'' @ [10] @
      py ''        commit: abc123'' @ [10]) =
     [py ''modules:'', py ''  - name: openjdk'', py ''    sources:'', py ''      - type: git'',
      py ''        url: https://example.test/jdk.git'', py ''        commit: 0123'',
      py ''  - name: mediathekview'', py ''    sources:'', py ''      - type: git'',
      py ''        url: https://example.test/repo.git'', py ''        commit: abc123'']"
    by (simp add: py_def splitlines_def is_linebreak_def)
  have a: "find_source_loop None None
     [py ''modules:'', py ''  - name: openjdk'', py ''    sources:'', py ''      - type: git'',
      py ''        url: https://example.test/jdk.git'', py ''        commit: 0123'',
      py ''  - name: mediathekview'', py ''    sources:'', py ''      - type: git'',
      py ''        url: https://example.test/repo.git'', py ''        commit: abc123''] =
     Inr \<lparr>git_url = py ''https://example.test/jdk.git'', commit = py ''0123''\<rparr>"
    by (simp add: source_update_def str_eval)
  show ?thesis
    unfolding find_mediathekview_source_def spec_find_source_forward_def s Let_def a
    by (simp add: first_value_def str_eval)
qed

section \<open>Wildcards and paths\<close>





lemma split_slash_ne [simp]: "split_slash s \<noteq> []"
  by (induction s) (auto split: list.splits)

lemma split_slash_no_slash: "47 \<notin> set x \<Longrightarrow> split_slash x = [x]"
  by (induction x) auto

lemma split_slash_append: "47 \<notin> set x \<Longrightarrow> split_slash (x @ 47 # r) = x # split_slash r"
  by (induction x) auto

lemma root_splitroot: "fst (splitroot s) = [] \<or> fst (splitroot s) = [47] \<or> fst (splitroot s) = [47, 47]"
proof (cases s)
  case Nil
  then show ?thesis by (simp add: splitroot_def)
next
  case (Cons a s')
  then show ?thesis
    by (cases s') (auto simp: splitroot_def)
qed

lemma root_parse_path: "root (parse_path s) = fst (splitroot s)"
  by (simp add: parse_path_def split: prod.splits)

lemma root_parse_path_abs: "root (parse_path s) \<noteq> [] \<longleftrightarrow> startswith s [47]"
proof (cases s)
  case Nil
  then show ?thesis by (simp add: root_parse_path splitroot_def startswith_def)
next
  case (Cons a s')
  then show ?thesis
    by (cases s') (auto simp: root_parse_path splitroot_def startswith_def)
qed

lemma tail_parse_path: "tail (parse_path p) = components p"
proof (cases p)
  case Nil
  then show ?thesis by (simp add: parse_path_def splitroot_def components_def)
next
  case (Cons a p')
  show ?thesis
  proof (cases "a = 47")
    case False
    with Cons show ?thesis by (simp add: parse_path_def splitroot_def components_def)
  next
    case a: True
    show ?thesis
    proof (cases p')
      case Nil
      with Cons a show ?thesis by (simp add: parse_path_def splitroot_def components_def)
    next
      case (Cons b p'')
      with \<open>p = a # p'\<close> a show ?thesis
        by (cases p'') (auto simp: parse_path_def splitroot_def components_def)
    qed
  qed
qed

lemma joinpath_components:
  "joinpath repo rel =
     \<lparr>root = (if startswith rel [47] then fst (splitroot rel) else root repo),
      tail = (if startswith rel [47] then [] else tail repo) @ components rel\<rparr>"
  by (simp add: joinpath_def tail_parse_path root_parse_path [symmetric])


lemma parent_joinpath:
  "components rel \<noteq> [] \<Longrightarrow>
     parent (joinpath repo rel) =
       \<lparr>root = (if startswith rel [47] then fst (splitroot rel) else root repo),
        tail = (if startswith rel [47] then [] else tail repo) @ butlast (components rel)\<rparr>"
  by (simp add: joinpath_components parent_def butlast_append)

lemma components_normal:
  assumes "list_all (\<lambda>c. c \<noteq> [] \<and> c \<noteq> [46] \<and> 47 \<notin> set c) (cs @ [seg])"
  shows "components (concat (map (\<lambda>c. c @ [47]) cs) @ seg) = cs @ [seg]"
  using assms
proof (induction cs)
  case Nil
  then show ?case by (simp add: components_def split_slash_no_slash)
next
  case (Cons c cs)
  then have c: "c \<noteq> []" "c \<noteq> [46]" "47 \<notin> set c"
    and rest: "list_all (\<lambda>c. c \<noteq> [] \<and> c \<noteq> [46] \<and> 47 \<notin> set c) (cs @ [seg])" by simp_all
  have "split_slash (c @ 47 # concat (map (\<lambda>c. c @ [47]) cs) @ seg) =
      c # split_slash (concat (map (\<lambda>c. c @ [47]) cs) @ seg)"
    by (rule split_slash_append [OF c(3)])
  with c Cons.IH [OF rest] show ?case by (simp add: components_def)
qed

lemma normal_relative:
  assumes "list_all (\<lambda>c. c \<noteq> [] \<and> c \<noteq> [46] \<and> 47 \<notin> set c) (cs @ [seg])"
  shows "\<not> startswith (concat (map (\<lambda>c. c @ [47]) cs) @ seg) [47]"
proof (cases cs)
  case Nil
  with assms obtain s ss where "seg = s # ss" "s \<noteq> 47" by (cases seg) auto
  with Nil show ?thesis by (simp add: startswith_def)
next
  case (Cons c cs')
  with assms obtain s ss where "c = s # ss" "s \<noteq> 47" by (cases c) auto
  with Cons show ?thesis by (simp add: startswith_def)
qed


lemma join_slash_concat: "join_slash (x # xs) = x @ concat (map (\<lambda>c. 47 # c) xs)"
  by (induction xs arbitrary: x) simp_all

section \<open>Synthesis of a source\<close>

lemma m2_repository:
  "joinpath (parse_path (py ''.m2'')) (py ''repository'') =
     \<lparr>root = [], tail = [py ''.m2'', py ''repository'']\<rparr>"
  "parse_path (py ''.m2/repository'') = \<lparr>root = [], tail = [py ''.m2'', py ''repository'']\<rparr>"
  by (simp_all add: joinpath_def parse_path_def splitroot_def startswith_def py_def)

lemma create_Inr:
  "create_flatpak_source h fs repo au = Inr src \<longleftrightarrow>
     (\<exists>data. read_bytes fs (joinpath repo (relpath au)) = Inr data \<and>
        src = \<lparr>src_url = url au,
               dest = as_posix (parent (joinpath (joinpath (parse_path (py ''.m2''))
                        (py ''repository'')) (relpath au))),
               dest_filename =
                 (if path_name (joinpath repo (relpath au)) = py ''maven-metadata.xml''
                  then (case glob fs (py ''maven-metadata-*.xml'')
                               (parent (joinpath repo (relpath au))) of
                          [] \<Rightarrow> path_name (joinpath repo (relpath au))
                        | c # _ \<Rightarrow> c)
                  else path_name (joinpath repo (relpath au))),
               sha512 = hexdigest (h data)\<rparr>)"
  by (auto simp: create_flatpak_source_def Let_def split: sum.splits)







lemma collect_sources_Inr:
  "collect_sources h fs repo urls fin = Inr sources \<Longrightarrow>
     fin = None \<and> map Inr sources = map (create_flatpak_source h fs repo) urls"
proof (induction urls arbitrary: sources)
  case Nil
  then show ?case by (cases fin) simp_all
next
  case (Cons a urls)
  then show ?case by (auto split: sum.splits)
qed

lemmas path_eval = joinpath_def parse_path_def splitroot_def path_name_def parent_def
  as_posix_def startswith_def py_def

lemma example_jar_artifact:
  "joinpath example_repo (relpath example_jar) =
     \<lparr>root = [47], tail = [py ''cache'', py ''foo'', py ''bar'', py ''1.0'', py ''bar-1.0.jar'']\<rparr>"
  by (simp add: example_repo_def example_jar_def path_eval)

lemma example_metadata_artifact:
  "joinpath example_repo (relpath example_metadata) =
     \<lparr>root = [47], tail = [py ''cache'', py ''foo'', py ''maven-metadata.xml'']\<rparr>"
  by (simp add: example_repo_def example_metadata_def path_eval)

lemma example_jar_read:
  "read_bytes example_fs (joinpath example_repo (relpath example_jar)) = Inr [80, 75, 3, 4]"
  unfolding example_jar_artifact by (simp add: read_bytes_def example_fs_def py_def)

lemma example_metadata_read:
  "read_bytes example_fs (joinpath example_repo (relpath example_metadata)) = Inr [60, 109]"
  unfolding example_metadata_artifact by (simp add: read_bytes_def example_fs_def py_def)

lemma example_metadata_glob:
  "glob example_fs (py ''maven-metadata-*.xml'')
     (parent (joinpath example_repo (relpath example_metadata))) =
     [py ''maven-metadata-20240101.120000-3.xml'']"
  unfolding example_metadata_artifact
  by (simp add: glob_def parent_def example_fs_def py_def)

lemma example_jar_create:
  "create_flatpak_source (\<lambda>d. d) example_fs example_repo example_jar =
     Inr \<lparr>src_url = py ''https://repo.maven.apache.org/maven2/foo/bar/1.0/bar-1.0.jar'',
          dest = py ''.m2/repository/foo/bar/1.0'',
          dest_filename = py ''bar-1.0.jar'',
          sha512 = py ''504b0304''\<rparr>"
proof -
  have n: "path_name (joinpath example_repo (relpath example_jar)) = py ''bar-1.0.jar''"
    unfolding example_jar_artifact by (simp add: path_name_def)
  have d: "as_posix (parent (joinpath (joinpath (parse_path (py ''.m2'')) (py ''repository''))
      (relpath example_jar))) = py ''.m2/repository/foo/bar/1.0''"
    by (simp add: example_jar_def path_eval)
  have h: "hexdigest [80, 75, 3, 4] = py ''504b0304''"
    by (simp add: hexdigest_def hex_digit_def py_def)
  have u: "url example_jar = py ''https://repo.maven.apache.org/maven2/foo/bar/1.0/bar-1.0.jar''"
    by (simp add: example_jar_def)
  have ne: "py ''bar-1.0.jar'' \<noteq> py ''maven-metadata.xml''" by (simp add: py_def)
  show ?thesis
    unfolding create_flatpak_source_def Let_def n example_jar_read
    by (simp only: d h u ne if_False sum.case simp_thms)
qed

lemma example_metadata_create:
  "create_flatpak_source (\<lambda>d. d) example_fs example_repo example_metadata =
     Inr \<lparr>src_url = py ''https://repo.maven.apache.org/maven2/foo/maven-metadata.xml'',
          dest = py ''.m2/repository/foo'',
          dest_filename = py ''maven-metadata-20240101.120000-3.xml'',
          sha512 = py ''3c6d''\<rparr>"
proof -
  have n: "path_name (joinpath example_repo (relpath example_metadata)) = py ''maven-metadata.xml''"
    unfolding example_metadata_artifact by (simp add: path_name_def)
  have d: "as_posix (parent (joinpath (joinpath (parse_path (py ''.m2'')) (py ''repository''))
      (relpath example_metadata))) = py ''.m2/repository/foo''"
    by (simp add: example_metadata_def path_eval)
  have h: "hexdigest [60, 109] = py ''3c6d''"
    by (simp add: hexdigest_def hex_digit_def py_def)
  have u: "url example_metadata = py ''https://repo.maven.apache.org/maven2/foo/maven-metadata.xml''"
    by (simp add: example_metadata_def)
  show ?thesis
    unfolding create_flatpak_source_def Let_def n example_metadata_read example_metadata_glob
    by (simp only: d h u if_True sum.case list.case simp_thms)
qed

lemma example_jar_normal:
  "relpath example_jar =
     concat (map (\<lambda>c. c @ [47]) [py ''foo'', py ''bar'', py ''1.0'']) @ py ''bar-1.0.jar''"
  "list_all (\<lambda>c. c \<noteq> [] \<and> c \<noteq> [46] \<and> 47 \<notin> set c)
     ([py ''foo'', py ''bar'', py ''1.0''] @ [py ''bar-1.0.jar''])"
  by (simp_all add: example_jar_def py_def)






lemma root_parent [simp]: "root (parent p) = root p"
  by (simp add: parent_def)

lemma dest_relative:
  assumes "\<not> startswith rel [47]" "components rel \<noteq> []"
  shows "as_posix (parent (joinpath (joinpath (parse_path (py ''.m2'')) (py ''repository'')) rel)) =
           spec_dest rel"
proof -
  have "parent (joinpath \<lparr>root = [], tail = [py ''.m2'', py ''repository'']\<rparr> rel) =
      \<lparr>root = [], tail = py ''.m2'' # py ''repository'' # butlast (components rel)\<rparr>"
    using assms(1) by (simp add: parent_joinpath [OF assms(2)])
  then have "as_posix (parent (joinpath \<lparr>root = [], tail = [py ''.m2'', py ''repository'']\<rparr> rel)) =
      py ''.m2'' @ 47 # py ''repository'' @ concat (map (\<lambda>c. 47 # c) (butlast (components rel)))"
    by (simp add: as_posix_def join_slash_concat py_def)
  also have "\<dots> = spec_dest rel" by (simp add: spec_dest_def py_def)
  finally show ?thesis by (simp only: m2_repository)
qed

lemma dest_absolute:
  assumes "startswith rel [47]"
  shows "startswith
           (as_posix (parent (joinpath (joinpath (parse_path (py ''.m2'')) (py ''repository'')) rel)))
           [47]"
proof -
  let ?q = "parse_path rel"
  from assms have j: "joinpath (joinpath (parse_path (py ''.m2'')) (py ''repository'')) rel = ?q"
    by (simp add: joinpath_def)
  from assms have "root ?q \<noteq> []" by (simp add: root_parse_path_abs)
  with root_splitroot [of rel] have "root ?q = [47] \<or> root ?q = [47, 47]"
    by (simp add: root_parse_path)
  then show ?thesis unfolding j by (auto simp: as_posix_def startswith_def Let_def)
qed

text \<open>
  C7, amended. Whenever a source is synthesized for a relative path that does not start
  with \<^verbatim>\<open>/\<close> and has a final segment, its \<open>dest\<close> is \<^verbatim>\<open>.m2/repository\<close> followed by a
  slash and a segment for every segment of the relative path but the last; for a relative
  path written as \<^verbatim>\<open>c1/.../cn/seg\<close> that is \<^verbatim>\<open>.m2/repository/c1/.../cn\<close>. For a relative path
  that starts with \<^verbatim>\<open>/\<close>, the destination starts with \<^verbatim>\<open>/\<close> as well and is not below
  \<^verbatim>\<open>.m2/repository\<close>.
\<close>

theorem create_flatpak_source_dest:
  assumes "create_flatpak_source h fs repo au = Inr src"
  shows "(\<not> startswith (relpath au) [47] \<and> components (relpath au) \<noteq> [] \<longrightarrow>
            dest src = spec_dest (relpath au)) \<and>
         (\<forall>cs seg. relpath au = concat (map (\<lambda>c. c @ [47]) cs) @ seg \<and>
            list_all (\<lambda>c. c \<noteq> [] \<and> c \<noteq> [46] \<and> 47 \<notin> set c) (cs @ [seg]) \<longrightarrow>
            dest src = py ''.m2/repository'' @ concat (map (\<lambda>c. 47 # c) cs)) \<and>
         (startswith (relpath au) [47] \<longrightarrow>
            startswith (dest src) [47] \<and> \<not> startswith (dest src) (py ''.m2/repository''))"
proof (intro conjI allI impI)
  from assms have d: "dest src = as_posix (parent (joinpath (joinpath (parse_path (py ''.m2''))
      (py ''repository'')) (relpath au)))"
    by (auto simp: create_Inr)
  {
    assume "\<not> startswith (relpath au) [47] \<and> components (relpath au) \<noteq> []"
    then show "dest src = spec_dest (relpath au)"
      unfolding d by (simp add: dest_relative)
  }
  {
    fix cs seg
    assume "relpath au = concat (map (\<lambda>c. c @ [47]) cs) @ seg \<and>
            list_all (\<lambda>c. c \<noteq> [] \<and> c \<noteq> [46] \<and> 47 \<notin> set c) (cs @ [seg])"
    then have r: "relpath au = concat (map (\<lambda>c. c @ [47]) cs) @ seg"
      and ok: "list_all (\<lambda>c. c \<noteq> [] \<and> c \<noteq> [46] \<and> 47 \<notin> set c) (cs @ [seg])" by simp_all
    have c: "components (relpath au) = cs @ [seg]" unfolding r by (rule components_normal [OF ok])
    have n: "\<not> startswith (relpath au) [47]" unfolding r by (rule normal_relative [OF ok])
    from c have "components (relpath au) \<noteq> []" by simp
    from dest_relative [OF n this] have "dest src = spec_dest (relpath au)" by (simp only: d)
    then show "dest src = py ''.m2/repository'' @ concat (map (\<lambda>c. 47 # c) cs)"
      by (simp add: spec_dest_def c)
  }
  {
    assume a: "startswith (relpath au) [47]"
    from dest_absolute [OF a] show s: "startswith (dest src) [47]" by (simp only: d)
    then obtain r where "dest src = [47] @ r" by (rule startswithE)
    then show "\<not> startswith (dest src) (py ''.m2/repository'')"
      by (simp add: startswith_def py_def)
  }
qed

theorem create_flatpak_source_dest_witness:
  "create_flatpak_source (\<lambda>d. d) example_fs example_repo example_jar =
     Inr \<lparr>src_url = py ''https://repo.maven.apache.org/maven2/foo/bar/1.0/bar-1.0.jar'',
          dest = py ''.m2/repository/foo/bar/1.0'',
          dest_filename = py ''bar-1.0.jar'',
          sha512 = py ''504b0304''\<rparr> \<and>
   relpath example_jar = py ''foo/bar/1.0/bar-1.0.jar'' \<and>
   py ''.m2/repository/foo/bar/1.0'' =
     py ''.m2/repository'' @ concat (map (\<lambda>c. 47 # c) [py ''foo'', py ''bar'', py ''1.0'']) \<and>
   spec_dest (py ''foo/bar/1.0/bar-1.0.jar'') = py ''.m2/repository/foo/bar/1.0''"
proof -
  note t = create_flatpak_source_dest [OF example_jar_create]
  have r: "relpath example_jar = py ''foo/bar/1.0/bar-1.0.jar''" by (simp add: example_jar_def)
  from t example_jar_normal have
    "dest \<lparr>src_url = py ''https://repo.maven.apache.org/maven2/foo/bar/1.0/bar-1.0.jar'',
          dest = py ''.m2/repository/foo/bar/1.0'',
          dest_filename = py ''bar-1.0.jar'',
          sha512 = py ''504b0304''\<rparr> =
      py ''.m2/repository'' @ concat (map (\<lambda>c. 47 # c) [py ''foo'', py ''bar'', py ''1.0''])"
    by blast
  then have a: "py ''.m2/repository/foo/bar/1.0'' =
     py ''.m2/repository'' @ concat (map (\<lambda>c. 47 # c) [py ''foo'', py ''bar'', py ''1.0''])"
    by (simp only: FlatpakFileSource.simps)
  have n: "\<not> startswith (relpath example_jar) [47]"
    by (simp add: example_jar_def py_def startswith_def)
  have c: "components (relpath example_jar) \<noteq> []"
    by (simp add: components_def example_jar_def py_def)
  from t n c have
    "dest \<lparr>src_url = py ''https://repo.maven.apache.org/maven2/foo/bar/1.0/bar-1.0.jar'',
          dest = py ''.m2/repository/foo/bar/1.0'',
          dest_filename = py ''bar-1.0.jar'',
          sha512 = py ''504b0304''\<rparr> = spec_dest (relpath example_jar)"
    by blast
  then have b: "spec_dest (py ''foo/bar/1.0/bar-1.0.jar'') = py ''.m2/repository/foo/bar/1.0''"
    by (simp only: FlatpakFileSource.simps r)
  from example_jar_create r a b show ?thesis by (intro conjI)
qed

text \<open>
  C7 as stated fails: the URL \<^verbatim>\<open>https://repo.maven.apache.org/maven2//etc/passwd\<close> is of a
  known repository and its relative path is \<^verbatim>\<open>/etc/passwd\<close>; joining that to the prefix
  replaces the prefix, so the source synthesized where that file exists has the
  destination \<^verbatim>\<open>/etc\<close>, while the join of the prefix with the parent of the relative path
  is \<^verbatim>\<open>.m2/repository/etc\<close>.
\<close>

theorem create_flatpak_source_dest_counterexample:
  "parse_url (py ''https://repo.maven.apache.org/maven2//etc/passwd'') =
     Inr \<lparr>url = py ''https://repo.maven.apache.org/maven2//etc/passwd'',
          repo_base_url = py ''https://repo.maven.apache.org/maven2/'',
          relpath = py ''/etc/passwd''\<rparr> \<and>
   create_flatpak_source (\<lambda>d. d)
       (example_fs(\<lparr>root = [47], tail = [py ''etc'', py ''passwd'']\<rparr> \<mapsto> File [114]))
       example_repo
       \<lparr>url = py ''https://repo.maven.apache.org/maven2//etc/passwd'',
        repo_base_url = py ''https://repo.maven.apache.org/maven2/'',
        relpath = py ''/etc/passwd''\<rparr> =
     Inr \<lparr>src_url = py ''https://repo.maven.apache.org/maven2//etc/passwd'',
          dest = py ''/etc'',
          dest_filename = py ''passwd'',
          sha512 = py ''72''\<rparr> \<and>
   spec_dest (py ''/etc/passwd'') = py ''.m2/repository/etc''"
proof -
  have p: "parse_url (py ''https://repo.maven.apache.org/maven2//etc/passwd'') =
     Inr \<lparr>url = py ''https://repo.maven.apache.org/maven2//etc/passwd'',
          repo_base_url = py ''https://repo.maven.apache.org/maven2/'',
          relpath = py ''/etc/passwd''\<rparr>"
    by (simp add: parse_url_def REPO_BASES_def py_def startswith_def)
  have a: "joinpath example_repo (py ''/etc/passwd'') =
      \<lparr>root = [47], tail = [py ''etc'', py ''passwd'']\<rparr>"
    by (simp add: example_repo_def path_eval)
  have d: "as_posix (parent (joinpath (joinpath (parse_path (py ''.m2'')) (py ''repository''))
      (py ''/etc/passwd''))) = py ''/etc''"
    by (simp add: path_eval)
  have h: "hexdigest [114] = py ''72''"
    by (simp add: hexdigest_def hex_digit_def py_def)
  have ne: "py ''passwd'' \<noteq> py ''maven-metadata.xml''" by (simp add: py_def)
  have c: "create_flatpak_source (\<lambda>d. d)
       (example_fs(\<lparr>root = [47], tail = [py ''etc'', py ''passwd'']\<rparr> \<mapsto> File [114]))
       example_repo
       \<lparr>url = py ''https://repo.maven.apache.org/maven2//etc/passwd'',
        repo_base_url = py ''https://repo.maven.apache.org/maven2/'',
        relpath = py ''/etc/passwd''\<rparr> =
     Inr \<lparr>src_url = py ''https://repo.maven.apache.org/maven2//etc/passwd'',
          dest = py ''/etc'',
          dest_filename = py ''passwd'',
          sha512 = py ''72''\<rparr>"
    unfolding create_flatpak_source_def Let_def ArtifactUrl.simps a d
    using ne h by (simp add: path_name_def read_bytes_def)
  have e: "spec_dest (py ''/etc/passwd'') = py ''.m2/repository/etc''"
    by (simp add: spec_dest_def components_def py_def)
  from p c e show ?thesis by (intro conjI)
qed

lemma parent_neq:
  assumes "tail p \<noteq> []"
  shows "parent p \<noteq> p"
proof
  assume "parent p = p"
  then have "tail (parent p) = tail p" by simp
  with assms have e: "butlast (tail p) = tail p" by (simp add: parent_def)
  from assms obtain x xs where "tail p = xs @ [x]" by (cases "tail p" rule: rev_cases) auto
  with e show False by simp
qed

text \<open>
  C10. When the file name is \<^verbatim>\<open>maven-metadata.xml\<close>, the wildcard has a first match \<open>c\<close> and
  the file can be read, the source has \<open>c\<close> as \<open>dest_filename\<close>, the reference's URL, the
  destination derived from the relative path, and the digest of the bytes of
  \<^verbatim>\<open>maven-metadata.xml\<close> itself. With the directory listing taken away, so that the override
  cannot fire, the source is the same but for \<open>dest_filename\<close>. The result depends on the
  file system only through that file and the listing of its directory, hence not on the
  bytes of the versioned sibling.
\<close>

theorem maven_metadata_override_frame:
  assumes "path_name (joinpath repo (relpath au)) = py ''maven-metadata.xml''"
    and "glob fs (py ''maven-metadata-*.xml'') (parent (joinpath repo (relpath au))) = c # cs"
    and "read_bytes fs (joinpath repo (relpath au)) = Inr data"
  shows "create_flatpak_source h fs repo au =
           Inr \<lparr>src_url = url au,
                dest = as_posix (parent (joinpath (joinpath (parse_path (py ''.m2''))
                         (py ''repository'')) (relpath au))),
                dest_filename = c,
                sha512 = hexdigest (h data)\<rparr> \<and>
         create_flatpak_source h (fs(parent (joinpath repo (relpath au)) := None)) repo au =
           Inr \<lparr>src_url = url au,
                dest = as_posix (parent (joinpath (joinpath (parse_path (py ''.m2''))
                         (py ''repository'')) (relpath au))),
                dest_filename = py ''maven-metadata.xml'',
                sha512 = hexdigest (h data)\<rparr> \<and>
         (\<forall>fs'. fs' (joinpath repo (relpath au)) = fs (joinpath repo (relpath au)) \<and>
                fs' (parent (joinpath repo (relpath au))) =
                  fs (parent (joinpath repo (relpath au))) \<longrightarrow>
                create_flatpak_source h fs' repo au = create_flatpak_source h fs repo au)"
proof (intro conjI allI impI)
  let ?a = "joinpath repo (relpath au)"
  show "create_flatpak_source h fs repo au =
           Inr \<lparr>src_url = url au,
                dest = as_posix (parent (joinpath (joinpath (parse_path (py ''.m2''))
                         (py ''repository'')) (relpath au))),
                dest_filename = c,
                sha512 = hexdigest (h data)\<rparr>"
    using assms by (simp add: create_flatpak_source_def)
  have "py ''maven-metadata.xml'' \<noteq> []" by (simp add: py_def)
  with assms(1) have "tail ?a \<noteq> []" by (auto simp: path_name_def split: if_splits)
  then have ne: "parent ?a \<noteq> ?a" by (rule parent_neq)
  then have r: "read_bytes (fs(parent ?a := None)) ?a = Inr data"
    using assms(3) by (simp add: read_bytes_def)
  have g: "glob (fs(parent ?a := None)) (py ''maven-metadata-*.xml'') (parent ?a) = []"
    by (simp add: glob_def)
  show "create_flatpak_source h (fs(parent ?a := None)) repo au =
           Inr \<lparr>src_url = url au,
                dest = as_posix (parent (joinpath (joinpath (parse_path (py ''.m2''))
                         (py ''repository'')) (relpath au))),
                dest_filename = py ''maven-metadata.xml'',
                sha512 = hexdigest (h data)\<rparr>"
    using assms(1) r g by (simp add: create_flatpak_source_def)
  fix fs'
  assume "fs' ?a = fs ?a \<and> fs' (parent ?a) = fs (parent ?a)"
  then have e1: "read_bytes fs' ?a = read_bytes fs ?a"
    and e2: "glob fs' (py ''maven-metadata-*.xml'') (parent ?a) =
      glob fs (py ''maven-metadata-*.xml'') (parent ?a)"
    by (simp_all add: read_bytes_def glob_def)
  show "create_flatpak_source h fs' repo au = create_flatpak_source h fs repo au"
    unfolding create_flatpak_source_def Let_def e1 e2 by (rule refl)
qed

theorem maven_metadata_override_frame_witness:
  "path_name (joinpath example_repo (relpath example_metadata)) = py ''maven-metadata.xml'' \<and>
   glob example_fs (py ''maven-metadata-*.xml'')
     (parent (joinpath example_repo (relpath example_metadata))) =
     [py ''maven-metadata-20240101.120000-3.xml''] \<and>
   read_bytes example_fs (joinpath example_repo (relpath example_metadata)) = Inr [60, 109] \<and>
   create_flatpak_source (\<lambda>d. d) example_fs example_repo example_metadata =
     Inr \<lparr>src_url = url example_metadata,
          dest = as_posix (parent (joinpath (joinpath (parse_path (py ''.m2''))
                   (py ''repository'')) (relpath example_metadata))),
          dest_filename = py ''maven-metadata-20240101.120000-3.xml'',
          sha512 = hexdigest [60, 109]\<rparr> \<and>
   hexdigest [60, 109] = py ''3c6d'' \<and>
   read_bytes example_fs
     \<lparr>root = [47], tail = [py ''cache'', py ''foo'',
        py ''maven-metadata-20240101.120000-3.xml'']\<rparr> = Inr [60, 63]"
proof -
  have n: "path_name (joinpath example_repo (relpath example_metadata)) = py ''maven-metadata.xml''"
    unfolding example_metadata_artifact by (simp add: path_name_def)
  note t = maven_metadata_override_frame [OF n example_metadata_glob example_metadata_read,
      of "\<lambda>d. d"]
  have h: "hexdigest [60, 109] = py ''3c6d''"
    by (simp add: hexdigest_def hex_digit_def py_def)
  have s: "read_bytes example_fs
     \<lparr>root = [47], tail = [py ''cache'', py ''foo'',
        py ''maven-metadata-20240101.120000-3.xml'']\<rparr> = Inr [60, 63]"
    by (simp add: read_bytes_def example_fs_def py_def)
  from t have c: "create_flatpak_source (\<lambda>d. d) example_fs example_repo example_metadata =
     Inr \<lparr>src_url = url example_metadata,
          dest = as_posix (parent (joinpath (joinpath (parse_path (py ''.m2''))
                   (py ''repository'')) (relpath example_metadata))),
          dest_filename = py ''maven-metadata-20240101.120000-3.xml'',
          sha512 = hexdigest [60, 109]\<rparr>"
    by (rule conjunct1)
  from n example_metadata_glob example_metadata_read c h s show ?thesis by (intro conjI)
qed

section \<open>The sorted result\<close>

lemma sort_key_order:
  fixes f :: "'a \<Rightarrow> pystr"
  assumes "i < j" "j < length (sort_key f xs)" "f (sort_key f xs ! i) \<noteq> f (sort_key f xs ! j)"
  shows "f (sort_key f xs ! i) < f (sort_key f xs ! j)"
proof -
  have s: "sorted (map f (sort_key f xs))" by (rule sorted_sort_key)
  from assms(1,2) have "map f (sort_key f xs) ! i \<le> map f (sort_key f xs) ! j"
    using s by (simp add: sorted_iff_nth_mono del: length_sort)
  with assms(1,2) have "f (sort_key f xs ! i) \<le> f (sort_key f xs ! j)"
    by (simp del: length_sort)
  with assms(3) show ?thesis by simp
qed

text \<open>
  C8. A list returned by \<open>update_dependencies\<close> is the stable sort by URL of the sources
  synthesized, in log order, from the references of the build log: it has the same
  elements with the same multiplicities, its URLs are ascending, sources with equal URLs
  keep their relative order, of two sources with different URLs the one with the smaller
  URL comes first, and the order on URLs is the lexicographic order on code points.
\<close>

theorem update_dependencies_sorted:
  assumes "update_dependencies h build source = Inr result"
  shows "\<exists>b urls sources.
           build source = Inr b \<and>
           extract_downloaded_artifacts (stdout b) = (urls, None) \<and>
           map Inr sources = map (create_flatpak_source h (files b) (repo_directory b)) urls \<and>
           result = sort_key src_url sources \<and>
           mset result = mset sources \<and>
           sorted (map src_url result) \<and>
           (\<forall>k. filter (\<lambda>s. src_url s = k) result = filter (\<lambda>s. src_url s = k) sources) \<and>
           (\<forall>i j. i < j \<and> j < length result \<and> src_url (result ! i) \<noteq> src_url (result ! j) \<longrightarrow>
              src_url (result ! i) < src_url (result ! j)) \<and>
           (\<forall>x y :: pystr. (x < y) = ((x, y) \<in> lexord {(u, v). u < v}))"
proof -
  from assms obtain b where b: "build source = Inr b"
    by (cases "build source") (simp_all add: update_dependencies_def)
  obtain urls fin where e: "extract_downloaded_artifacts (stdout b) = (urls, fin)"
    by (cases "extract_downloaded_artifacts (stdout b)")
  from assms b e obtain sources where
    c: "collect_sources h (files b) (repo_directory b) urls fin = Inr sources"
    and r: "result = sort_key src_url sources"
    by (cases "collect_sources h (files b) (repo_directory b) urls fin")
      (simp_all add: update_dependencies_def)
  from collect_sources_Inr [OF c] have fin: "fin = None"
    and m: "map Inr sources = map (create_flatpak_source h (files b) (repo_directory b)) urls"
    by simp_all
  have o: "\<forall>i j. i < j \<and> j < length result \<and> src_url (result ! i) \<noteq> src_url (result ! j) \<longrightarrow>
      src_url (result ! i) < src_url (result ! j)"
    unfolding r using sort_key_order [of _ _ src_url sources] by blast
  have l: "\<forall>x y :: pystr. (x < y) = ((x, y) \<in> lexord {(u, v). u < v})"
    by (simp add: list_less_def)
  have "build source = Inr b \<and>
           extract_downloaded_artifacts (stdout b) = (urls, None) \<and>
           map Inr sources = map (create_flatpak_source h (files b) (repo_directory b)) urls \<and>
           result = sort_key src_url sources \<and>
           mset result = mset sources \<and>
           sorted (map src_url result) \<and>
           (\<forall>k. filter (\<lambda>s. src_url s = k) result = filter (\<lambda>s. src_url s = k) sources) \<and>
           (\<forall>i j. i < j \<and> j < length result \<and> src_url (result ! i) \<noteq> src_url (result ! j) \<longrightarrow>
              src_url (result ! i) < src_url (result ! j)) \<and>
           (\<forall>x y :: pystr. (x < y) = ((x, y) \<in> lexord {(u, v). u < v}))"
    using b e fin m r o l by (simp add: sort_key_stable)
  then show ?thesis by blast
qed

lemma example_extract:
  "extract_downloaded_artifacts example_log = ([example_metadata, example_jar], None)"
proof -
  have s: "splitlines example_log =
     [py ''[INFO] Downloaded from central: https://repo.maven.apache.org/maven2/foo/maven-metadata.xml (1 kB)'',
      py ''[INFO] Compiling'',
      py ''Downloaded from central: https://repo.maven.apache.org/maven2/foo/bar/1.0/bar-1.0.jar'']"
    by (simp add: example_log_def py_def splitlines_def is_linebreak_def)
  have m1: "DOWNLOADED_RE_search
      (py ''[INFO] Downloaded from central: https://repo.maven.apache.org/maven2/foo/maven-metadata.xml (1 kB)'') =
      Some (py ''https://repo.maven.apache.org/maven2/foo/maven-metadata.xml'')"
    by (simp add: regex_eval)
  have m2: "DOWNLOADED_RE_search (py ''[INFO] Compiling'') = None"
    by (simp add: regex_eval)
  have m3: "DOWNLOADED_RE_search
      (py ''Downloaded from central: https://repo.maven.apache.org/maven2/foo/bar/1.0/bar-1.0.jar'') =
      Some (py ''https://repo.maven.apache.org/maven2/foo/bar/1.0/bar-1.0.jar'')"
    by (simp add: regex_eval)
  have p1: "parse_url (py ''https://repo.maven.apache.org/maven2/foo/maven-metadata.xml'') =
      Inr example_metadata"
    by (simp add: parse_url_def REPO_BASES_def example_metadata_def py_def startswith_def)
  have p2: "parse_url (py ''https://repo.maven.apache.org/maven2/foo/bar/1.0/bar-1.0.jar'') =
      Inr example_jar"
    by (simp add: parse_url_def REPO_BASES_def example_jar_def py_def startswith_def)
  show ?thesis
    unfolding extract_downloaded_artifacts_def s
    by (simp only: extract_lines.simps m1 m2 m3 p1 p2 option.case sum.case fst_conv snd_conv)
qed

theorem update_dependencies_sorted_witness:
  "update_dependencies (\<lambda>d. d) example_build \<lparr>git_url = py ''https://example.test/repo.git'',
       commit = py ''abc123''\<rparr> =
     Inr [\<lparr>src_url = py ''https://repo.maven.apache.org/maven2/foo/bar/1.0/bar-1.0.jar'',
           dest = py ''.m2/repository/foo/bar/1.0'',
           dest_filename = py ''bar-1.0.jar'',
           sha512 = py ''504b0304''\<rparr>,
          \<lparr>src_url = py ''https://repo.maven.apache.org/maven2/foo/maven-metadata.xml'',
           dest = py ''.m2/repository/foo'',
           dest_filename = py ''maven-metadata-20240101.120000-3.xml'',
           sha512 = py ''3c6d''\<rparr>] \<and>
   map url (fst (extract_downloaded_artifacts example_log)) =
     [py ''https://repo.maven.apache.org/maven2/foo/maven-metadata.xml'',
      py ''https://repo.maven.apache.org/maven2/foo/bar/1.0/bar-1.0.jar''] \<and>
   sorted [py ''https://repo.maven.apache.org/maven2/foo/bar/1.0/bar-1.0.jar'',
           py ''https://repo.maven.apache.org/maven2/foo/maven-metadata.xml'']"
proof -
  let ?src = "\<lparr>git_url = py ''https://example.test/repo.git'', commit = py ''abc123''\<rparr>"
  let ?J = "\<lparr>src_url = py ''https://repo.maven.apache.org/maven2/foo/bar/1.0/bar-1.0.jar'',
           dest = py ''.m2/repository/foo/bar/1.0'',
           dest_filename = py ''bar-1.0.jar'',
           sha512 = py ''504b0304''\<rparr>"
  let ?M = "\<lparr>src_url = py ''https://repo.maven.apache.org/maven2/foo/maven-metadata.xml'',
           dest = py ''.m2/repository/foo'',
           dest_filename = py ''maven-metadata-20240101.120000-3.xml'',
           sha512 = py ''3c6d''\<rparr>"
  have c: "collect_sources (\<lambda>d. d) example_fs example_repo [example_metadata, example_jar] None =
      Inr [?M, ?J]"
    by (simp only: collect_sources.simps example_metadata_create example_jar_create sum.case)
  have srt: "sort_key src_url [?M, ?J] = [?J, ?M]"
    by (simp add: py_def)
  have u: "update_dependencies (\<lambda>d. d) example_build ?src = Inr [?J, ?M]"
    unfolding update_dependencies_def example_build_def
    by (simp only: sum.case BuildCapture.simps example_extract prod.case c srt)
  from update_dependencies_sorted [OF u] have "sorted (map src_url [?J, ?M])" by blast
  then have s: "sorted [py ''https://repo.maven.apache.org/maven2/foo/bar/1.0/bar-1.0.jar'',
           py ''https://repo.maven.apache.org/maven2/foo/maven-metadata.xml'']"
    by simp
  have e: "map url (fst (extract_downloaded_artifacts example_log)) =
     [py ''https://repo.maven.apache.org/maven2/foo/maven-metadata.xml'',
      py ''https://repo.maven.apache.org/maven2/foo/bar/1.0/bar-1.0.jar'']"
    by (simp add: example_extract example_metadata_def example_jar_def)
  from u e s show ?thesis by (intro conjI)
qed

end
